theory Spec2Isabelle
  imports Complex_Main "HOL-Library.Word"
begin

section \<open>Python values, errors and files\<close>

text \<open>
  The reader of LIF containers (\<^verbatim>\<open>readlif/reader.py\<close>) is embedded function by
  function. Every exception the Python raises is a value \<open>Inl e\<close> of the result type
  \<open>error + 'a\<close>; the constructor names the Python exception class.
\<close>

type_synonym byte = "8 word"

datatype error =
    ValueError string
  | IndexError
  | KeyError string
  | TypeError
  | OverflowError
  | OSError
  | ZeroDivisionError
  | StructError
  | ParseError
  | UnboundLocalError

text \<open>Sequencing of fallible steps: the first exception ends the computation.\<close>

definition ebind :: "error + 'a \<Rightarrow> ('a \<Rightarrow> error + 'b) \<Rightarrow> error + 'b" where
  "ebind r f = (case r of Inl e \<Rightarrow> Inl e | Inr x \<Rightarrow> f x)"

text \<open>Python's \<^verbatim>\<open>xs[i]\<close>: a negative index counts from the end, an index out of
  range raises IndexError.\<close>

definition getitem :: "'a list \<Rightarrow> int \<Rightarrow> error + 'a" where
  "getitem xs i =
     (if 0 \<le> i \<and> i < int (length xs) then Inr (xs ! nat i)
      else if i < 0 \<and> - int (length xs) \<le> i then Inr (xs ! nat (int (length xs) + i))
      else Inl IndexError)"

text \<open>\<^verbatim>\<open>int(a / b)\<close> on Python ints: true division, then truncation towards zero;
  a zero divisor raises. (The quotient goes through a float: the model is exact
  while the operands are below \<open>2 ^ 53\<close> in absolute value.)\<close>

definition int_truediv :: "int \<Rightarrow> int \<Rightarrow> error + int" where
  "int_truediv a b =
     (if b = 0 then Inl ZeroDivisionError
      else if (a < 0) = (b < 0) then Inr (\<bar>a\<bar> div \<bar>b\<bar>)
      else Inr (- (\<bar>a\<bar> div \<bar>b\<bar>)))"

text \<open>A number held in the stride list: a Python int or a \<^verbatim>\<open>np.uint64\<close> scalar.
  A Python int combined with a \<^verbatim>\<open>np.uint64\<close> is converted to \<^verbatim>\<open>np.uint64\<close>
  (NumPy 2 promotion: a value outside the type raises OverflowError); arithmetic on
  \<^verbatim>\<open>np.uint64\<close> wraps modulo \<open>2 ^ 64\<close>.\<close>

datatype pynum = PyInt int | U64 "64 word"

fun as_u64 :: "int \<Rightarrow> error + 64 word" where
  "as_u64 k = (if 0 \<le> k \<and> k < 2 ^ 64 then Inr (word_of_int k) else Inl OverflowError)"

fun py_mul :: "int \<Rightarrow> pynum \<Rightarrow> error + pynum" where
  "py_mul k (PyInt s) = Inr (PyInt (k * s))"
| "py_mul k (U64 s) = ebind (as_u64 k) (\<lambda>w. Inr (U64 (w * s)))"

fun py_add :: "pynum \<Rightarrow> pynum \<Rightarrow> error + pynum" where
  "py_add (PyInt a) (PyInt b) = Inr (PyInt (a + b))"
| "py_add (PyInt a) (U64 b) = ebind (as_u64 a) (\<lambda>w. Inr (U64 (w + b)))"
| "py_add (U64 a) (PyInt b) = ebind (as_u64 b) (\<lambda>w. Inr (U64 (a + w)))"
| "py_add (U64 a) (U64 b) = Inr (U64 (a + b))"

fun py_int :: "pynum \<Rightarrow> int" where
  "py_int (PyInt a) = a"
| "py_int (U64 a) = uint a"

text \<open>A binary file is the list of its bytes. \<^verbatim>\<open>seek\<close> to a negative position
  raises OSError; a position past the end is allowed. \<^verbatim>\<open>read(n)\<close> returns the
  bytes that are there, at most \<open>n\<close>; \<open>n = -1\<close> reads to the end and a smaller
  \<open>n\<close> raises ValueError.\<close>

definition file_seek :: "int \<Rightarrow> error + nat" where
  "file_seek p = (if p < 0 then Inl OSError else Inr (nat p))"

definition file_read :: "byte list \<Rightarrow> nat \<Rightarrow> int \<Rightarrow> error + byte list" where
  "file_read file pos n =
     (if n < - 1 then Inl (ValueError ''read length must be non-negative or -1'')
      else if n = - 1 then Inr (drop pos file)
      else Inr (take (nat n) (drop pos file)))"

section \<open>The array and image collaborators\<close>

text \<open>A NumPy array of unsigned integers: its shape, the byte width of an element and
  its buffer (\<open>arr_itemsize\<close> bytes per element).\<close>

record ndarray =
  arr_shape :: "int list"
  arr_itemsize :: nat
  arr_data :: "byte list"

text \<open>\<^verbatim>\<open>np.dtype('u<n>')\<close>: the unsigned integer types have 1, 2, 4 or 8 bytes; any
  other width is not a data type.\<close>

definition np_dtype_u :: "int \<Rightarrow> error + nat" where
  "np_dtype_u n = (if n = 1 \<or> n = 2 \<or> n = 4 \<or> n = 8 then Inr (nat n) else Inl TypeError)"

text \<open>\<^verbatim>\<open>np.fromfile(f, dtype, count, offset)\<close> on a file just opened: skip \<open>offset\<close>
  bytes, then read \<open>count\<close> elements, or as many whole elements as the file still holds
  (all of them when \<open>count\<close> is negative). A short file is not an error here.\<close>

definition np_fromfile :: "byte list \<Rightarrow> nat \<Rightarrow> int \<Rightarrow> int \<Rightarrow> error + byte list" where
  "np_fromfile file isz count offset =
     (if offset < 0 then Inl OSError
      else (let rest = drop (nat offset) file;
                avail = length rest div isz;
                items = (if count < 0 then avail else min (nat count) avail)
            in Inr (take (items * isz) rest)))"

text \<open>\<^verbatim>\<open>np.reshape(a, shape)\<close>: the shape must hold exactly the elements of \<open>a\<close>;
  one negative entry stands for the size that makes it so.\<close>

definition np_reshape :: "nat \<Rightarrow> byte list \<Rightarrow> int list \<Rightarrow> error + ndarray" where
  "np_reshape isz buf shp =
     (let n = int (length buf div isz);
          unknown = filter (\<lambda>d. d < 0) shp;
          known = prod_list (filter (\<lambda>d. 0 \<le> d) shp)
      in if 1 < length unknown
         then Inl (ValueError ''can only specify one unknown dimension'')
         else if unknown = []
         then (if known = n
               then Inr \<lparr>arr_shape = shp, arr_itemsize = isz, arr_data = buf\<rparr>
               else Inl (ValueError ''cannot reshape array''))
         else if known = 0 \<or> n mod known \<noteq> 0
         then Inl (ValueError ''cannot reshape array'')
         else Inr \<lparr>arr_shape = map (\<lambda>d. if d < 0 then n div known else d) shp,
                   arr_itemsize = isz, arr_data = buf\<rparr>)"

text \<open>A PIL image of mode \<^verbatim>\<open>"L"\<close>: one byte per pixel. \<^verbatim>\<open>Image.frombytes\<close> takes the
  pixels it needs from the front of the buffer and raises when there are too few.\<close>

record pil_image =
  im_mode :: string
  im_size :: "int \<times> int"
  im_data :: "byte list"

definition Image_frombytes_L :: "int \<times> int \<Rightarrow> byte list \<Rightarrow> error + pil_image" where
  "Image_frombytes_L sz data =
     (if fst sz < 0 \<or> snd sz < 0 then Inl (ValueError ''Width and height must be >= 0'')
      else if length data < nat (fst sz * snd sz) then Inl (ValueError ''not enough image data'')
      else Inr \<lparr>im_mode = ''L'', im_size = sz, im_data = take (nat (fst sz * snd sz)) data\<rparr>)"

text \<open>What \<open>get_frame\<close> returns, a PIL image or an array, and the number of elements
  in its buffer.\<close>

datatype frame = Image pil_image | Array ndarray

fun n_elements :: "frame \<Rightarrow> nat" where
  "n_elements (Image im) = length (im_data im)"
| "n_elements (Array a) = length (arr_data a) div arr_itemsize a"

section \<open>LifImage\<close>

text \<open>The dictionary \<^verbatim>\<open>image_info\<close> that the metadata walk builds for a leaf image.
  \<open>dims\<close> and \<open>stride\<close> are in the order channel, z, t, tile, y, x; floats are
  idealised as rationals.\<close>

record image_info =
  dims :: "int list"
  path :: string
  name :: string
  channels :: int
  ch_offsets :: "64 word list"
  ch_resolutions :: "int list"
  scale :: "rat list"
  stride :: "pynum list"
  tile_positions :: "rat list \<times> rat list"

text \<open>A \<^verbatim>\<open>LifImage\<close> keeps the fields of its \<^verbatim>\<open>image_info\<close> and adds the block
  \<open>offsets = (file offset, byte length)\<close>, \<open>nz\<close>, \<open>nt\<close> and the element width of
  \<^verbatim>\<open>self.dtype\<close>. The file named by \<^verbatim>\<open>self.filename\<close> is passed to every read as
  its bytes.\<close>

record LifImage = image_info +
  offsets :: "int \<times> int"
  nz :: int
  nt :: int
  dtype :: nat

definition LifImage_init :: "image_info \<Rightarrow> int \<times> int \<Rightarrow> error + LifImage" where
  "LifImage_init info offs =
     ebind (getitem (dims info) 1) (\<lambda>d1.
     ebind (getitem (dims info) 2) (\<lambda>d2.
     ebind (getitem (ch_resolutions info) 0) (\<lambda>r0.
     ebind (int_truediv r0 8) (\<lambda>w.
     ebind (np_dtype_u w) (\<lambda>dt.
       Inr \<lparr>dims = dims info, path = path info, name = name info,
            channels = channels info, ch_offsets = ch_offsets info,
            ch_resolutions = ch_resolutions info, scale = scale info,
            stride = stride info, tile_positions = tile_positions info,
            offsets = offs, nz = d1, nt = d2, dtype = dt\<rparr>)))))"

text \<open>\<^verbatim>\<open>self.dims[-2:]\<close>\<close>

definition last2 :: "'a list \<Rightarrow> 'a list" where
  "last2 xs = drop (length xs - 2) xs"

text \<open>\<^verbatim>\<open>_get_item_np\<close> (the leading underscore is dropped).\<close>

definition get_item_np :: "'a LifImage_scheme \<Rightarrow> byte list \<Rightarrow> int \<Rightarrow> error + ndarray" where
  "get_item_np self file n =
     (let n_planes = prod_list (take 4 (dims self))
      in if n \<ge> n_planes then Inl (ValueError ''Invalid item trying to be retrieved.'')
         else (let dims_yx = last2 (dims self);
                   plane_size = prod_list dims_yx;
                   plane_bytes = plane_size * int (dtype self);
                   offset = fst (offsets self) + plane_bytes * n
               in ebind (np_fromfile file (dtype self) plane_size offset) (\<lambda>im.
                  np_reshape (dtype self) im dims_yx)))"

definition get_frame_np :: "'a LifImage_scheme \<Rightarrow> byte list \<Rightarrow> int \<Rightarrow> int \<Rightarrow> int \<Rightarrow> int \<Rightarrow> error + ndarray" where
  "get_frame_np self file z t c m =
     (let dims_yx = last2 (dims self)
      in ebind (getitem (stride self) 3) (\<lambda>s3.
         ebind (py_mul m s3) (\<lambda>offset.
         ebind (getitem (stride self) 2) (\<lambda>s2.
         ebind (py_mul t s2) (\<lambda>a2.
         ebind (py_add offset a2) (\<lambda>offset.
         ebind (getitem (stride self) 1) (\<lambda>s1.
         ebind (py_mul z s1) (\<lambda>a1.
         ebind (py_add offset a1) (\<lambda>offset.
         ebind (getitem (stride self) 0) (\<lambda>s0.
         ebind (py_mul c s0) (\<lambda>a0.
         ebind (py_add offset a0) (\<lambda>offset.
         ebind (np_fromfile file (dtype self) (prod_list dims_yx) (py_int offset)) (\<lambda>im.
         np_reshape (dtype self) im dims_yx)))))))))))))"

definition get_stack_np :: "'a LifImage_scheme \<Rightarrow> byte list \<Rightarrow> int \<Rightarrow> error + ndarray" where
  "get_stack_np self file m =
     (let m_idx = 3;
          stackdims = take m_idx (dims self) @ drop (m_idx + 1) (dims self)
      in ebind (getitem (stride self) (int m_idx)) (\<lambda>s3.
         ebind (py_mul m s3) (\<lambda>ms.
         (let offset = fst (offsets self) + py_int ms
          in ebind (np_fromfile file (dtype self) (prod_list stackdims) offset) (\<lambda>im.
             np_reshape (dtype self) im stackdims)))))"

text \<open>\<^verbatim>\<open>_get_item\<close>: the plane as a PIL image of mode \<^verbatim>\<open>"L"\<close>.\<close>

definition get_item :: "'a LifImage_scheme \<Rightarrow> byte list \<Rightarrow> int \<Rightarrow> error + pil_image" where
  "get_item self file n =
     ebind (getitem (dims self) 1) (\<lambda>d1.
     ebind (getitem (dims self) 2) (\<lambda>d2.
     ebind (getitem (dims self) 3) (\<lambda>d3.
     (let seek_distance = channels self * d1 * d2 * d3
      in if n \<ge> seek_distance then Inl (ValueError ''Invalid item trying to be retrieved.'')
         else
           ebind (if snd (offsets self) = 0
                  then ebind (getitem (dims self) 4) (\<lambda>d4.
                       ebind (getitem (dims self) 5) (\<lambda>d5.
                       Inr (seek_distance * d4 * d5)))
                  else int_truediv (snd (offsets self)) seek_distance) (\<lambda>image_len.
           ebind (file_seek (fst (offsets self) + image_len * n)) (\<lambda>pos.
           ebind (if snd (offsets self) = 0
                  then Inr (replicate (nat image_len) 0)
                  else file_read file pos image_len) (\<lambda>data.
           ebind (getitem (dims self) 4) (\<lambda>d4.
           ebind (getitem (dims self) 5) (\<lambda>d5.
           Image_frombytes_L (d4, d5) data)))))))))"

definition get_frame :: "'a LifImage_scheme \<Rightarrow> byte list \<Rightarrow> int \<Rightarrow> int \<Rightarrow> int \<Rightarrow> int \<Rightarrow> bool \<Rightarrow> error + frame" where
  "get_frame self file z t c m return_as_np =
     (if z \<ge> nz self then Inl (ValueError ''Requested Z frame doesn't exist.'')
      else if t \<ge> nt self then Inl (ValueError ''Requested T frame doesn't exist.'')
      else if c \<ge> channels self then Inl (ValueError ''Requested channel doesn't exist.'')
      else ebind (getitem (dims self) 3) (\<lambda>d3.
        if m \<ge> d3 then Inl (ValueError ''Requested tile doesn't exist.'')
        else (let total_items = channels self * nz self * nt self * d3;
                  m_offset = channels self * nz self * nt self;
                  m_requested = m_offset * m;
                  t_offset = channels self * nz self;
                  t_requested = t_offset * t;
                  c_offset = nz self;
                  c_requested = c_offset * c;
                  z_requested = z;
                  item_requested = m_requested + t_requested + z_requested + c_requested
              in if item_requested > total_items
                 then Inl (ValueError ''The requested item is after the end of the image'')
                 else if return_as_np
                 then map_sum id Array (get_item_np self file item_requested)
                 else map_sum id Image (get_item self file item_requested))))"

text \<open>The plane index \<^verbatim>\<open>item_requested\<close> that \<open>get_frame\<close> passes on.\<close>

definition item_index :: "'a LifImage_scheme \<Rightarrow> int \<Rightarrow> int \<Rightarrow> int \<Rightarrow> int \<Rightarrow> int" where
  "item_index self z t c m =
     channels self * nz self * nt self * m + channels self * nz self * t + z + nz self * c"


text \<open>What the theorems on plane reads ask of an image: the fields copied at
  construction agree with \<open>dims\<close>, the plane is not of negative size, the element
  width and the block offset are those of a scanned block.\<close>

definition consistent :: "'a LifImage_scheme \<Rightarrow> bool" where
  "consistent self \<longleftrightarrow>
     channels self = dims self ! 0 \<and> nz self = dims self ! 1 \<and> nt self = dims self ! 2
     \<and> 0 \<le> dims self ! 4 \<and> 0 \<le> dims self ! 5
     \<and> 0 < dtype self \<and> 0 \<le> fst (offsets self)"

text \<open>The block has the length that the dimensions and the element width give, and
  lies within the file.\<close>

definition block_present :: "'a LifImage_scheme \<Rightarrow> byte list \<Rightarrow> bool" where
  "block_present self file \<longleftrightarrow>
     snd (offsets self) = prod_list (dims self) * int (dtype self)
     \<and> fst (offsets self) + snd (offsets self) \<le> int (length file)"

section \<open>The metadata document\<close>

text \<open>An element of the parsed document (\<^verbatim>\<open>xml.etree.ElementTree\<close>): its tag, its
  attribute dictionary and its child elements in document order.\<close>

datatype element = Element (tag: string) (attrib: "(string \<times> string) list") (children: "element list")

text \<open>\<^verbatim>\<open>item.attrib[k]\<close>: a missing attribute raises KeyError.\<close>

definition attr :: "element \<Rightarrow> string \<Rightarrow> error + string" where
  "attr e k = (case map_of (attrib e) k of None \<Rightarrow> Inl (KeyError k) | Some v \<Rightarrow> Inr v)"

text \<open>\<^verbatim>\<open>findall("./A/B")\<close>: the children tagged \<open>B\<close> of the children tagged \<open>A\<close>, in
  document order; the path is the list of its tags.\<close>

definition child_elems :: "string \<Rightarrow> element \<Rightarrow> element list" where
  "child_elems t e = filter (\<lambda>c. tag c = t) (children e)"

fun findall :: "string list \<Rightarrow> element \<Rightarrow> element list" where
  "findall [] e = [e]"
| "findall (t # ts) e = concat (map (findall ts) (child_elems t e))"

text \<open>\<^verbatim>\<open>item.find('./Data/.../DimensionDescription[@DimID="<id>"]')\<close>: the first
  dimension description with this id, or \<^verbatim>\<open>None\<close>.\<close>

definition find_dimension :: "element \<Rightarrow> string \<Rightarrow> element option" where
  "find_dimension item dim_id =
     (case filter (\<lambda>d. map_of (attrib d) ''DimID'' = Some dim_id)
             (findall [''Data'', ''Image'', ''ImageDescription'', ''Dimensions'',
                       ''DimensionDescription''] item) of
        [] \<Rightarrow> None
      | dd # _ \<Rightarrow> Some dd)"

text \<open>What the reader leaves to Python and its libraries is a parameter of the model:
  the conversions \<^verbatim>\<open>int(s)\<close>, \<^verbatim>\<open>float(s)\<close> and \<^verbatim>\<open>np.uint64(s)\<close> of an attribute
  string, and \<^verbatim>\<open>ET.fromstring(bytes.decode("utf-16"))\<close> for the header. Each returns its
  value or the exception it raises. A float is an exact rational: rounding, infinities
  and NaN are outside the model.\<close>

record parsers =
  py_int_of :: "string \<Rightarrow> error + int"
  py_float_of :: "string \<Rightarrow> error + rat"
  np_uint64_of :: "string \<Rightarrow> error + 64 word"
  fromstring :: "byte list \<Rightarrow> error + element"

text \<open>A loop or list comprehension over fallible steps: the first exception ends it.\<close>

fun emap :: "('a \<Rightarrow> error + 'b) \<Rightarrow> 'a list \<Rightarrow> error + 'b list" where
  "emap f [] = Inr []"
| "emap f (x # xs) = ebind (f x) (\<lambda>y. ebind (emap f xs) (\<lambda>ys. Inr (y # ys)))"

text \<open>\<^verbatim>\<open>a / b\<close> on floats: a zero divisor raises.\<close>

definition py_truediv :: "rat \<Rightarrow> rat \<Rightarrow> error + rat" where
  "py_truediv a b = (if b = 0 then Inl ZeroDivisionError else Inr (a / b))"

text \<open>One round of the loop over the dimension ids (lines 472 to 486): the element
  count, the byte increment and the physical length of the dimension, or the defaults
  \<open>1\<close>, \<open>int(0)\<close>, \<open>1.0\<close> when the document has no such dimension (the
  AttributeError of \<^verbatim>\<open>None.attrib\<close> is caught). An attribute that is missing or does not
  convert raises.\<close>

record dim_entry =
  n_elems :: int
  bytes_inc :: pynum
  phys_len :: rat

definition dimension_entry :: "parsers \<Rightarrow> element \<Rightarrow> string \<Rightarrow> error + dim_entry" where
  "dimension_entry ps item dim_id =
     (case find_dimension item dim_id of
        None \<Rightarrow> Inr \<lparr>n_elems = 1, bytes_inc = PyInt 0, phys_len = 1\<rparr>
      | Some dd \<Rightarrow>
          ebind (attr dd ''NumberOfElements'') (\<lambda>a.
          ebind (py_int_of ps a) (\<lambda>n.
          ebind (attr dd ''BytesInc'') (\<lambda>b.
          ebind (np_uint64_of ps b) (\<lambda>s.
          ebind (attr dd ''Length'') (\<lambda>c.
          ebind (py_float_of ps c) (\<lambda>l.
          Inr \<lparr>n_elems = n, bytes_inc = U64 s, phys_len = l\<rparr>)))))))"

text \<open>The scale list (lines 470 and 488 to 492).\<close>

definition derive_scales :: "int list \<Rightarrow> rat list \<Rightarrow> error + rat list" where
  "derive_scales sizes lengths =
     (let scales = [1] in
      ebind (getitem sizes 1) (\<lambda>d1. ebind (getitem lengths 1) (\<lambda>l1.
      ebind (py_truediv (of_int d1) (l1 * 10 ^ 6)) (\<lambda>s1.
      ebind (getitem sizes 2) (\<lambda>d2. ebind (getitem lengths 2) (\<lambda>l2.
      ebind (py_truediv (of_int d2) l2) (\<lambda>s2.
      ebind (getitem sizes 4) (\<lambda>d4. ebind (getitem lengths 4) (\<lambda>l4.
      ebind (py_truediv (of_int (d4 - 1)) (l4 * 10 ^ 6)) (\<lambda>s4.
      ebind (getitem sizes 5) (\<lambda>d5. ebind (getitem lengths 5) (\<lambda>l5.
      ebind (py_truediv (of_int (d5 - 1)) (l5 * 10 ^ 6)) (\<lambda>s5.
      Inr (scales @ [s1] @ [s2] @ [1] @ [s4] @ [s5]))))))))))))))"

text \<open>The position of a tile attachment, in micrometers (lines 496 to 498).\<close>

definition tile_position :: "parsers \<Rightarrow> element \<Rightarrow> error + (rat \<times> rat)" where
  "tile_position ps tile =
     ebind (attr tile ''PosX'') (\<lambda>x. ebind (py_float_of ps x) (\<lambda>fx.
     ebind (attr tile ''PosY'') (\<lambda>y. ebind (py_float_of ps y) (\<lambda>fy.
     Inr (fx * 10 ^ 6, fy * 10 ^ 6)))))"

text \<open>The branch \<^verbatim>\<open>elif is_image\<close> of the walk (lines 457 to 512): the dictionary built
  for a leaf image. \<open>pth\<close> is the path of the folder the leaf lies in.\<close>

definition image_data_dict :: "parsers \<Rightarrow> string \<Rightarrow> element \<Rightarrow> error + image_info" where
  "image_data_dict ps pth item =
     (let channel_list = findall [''Data'', ''Image'', ''ImageDescription'', ''Channels'',
                                  ''ChannelDescription''] item;
          n_channels = int (length channel_list)
      in ebind (emap (\<lambda>ch. ebind (attr ch ''BytesInc'') (np_uint64_of ps)) channel_list)
           (\<lambda>ch_offsets.
         ebind (emap (\<lambda>ch. ebind (attr ch ''Resolution'') (py_int_of ps)) channel_list)
           (\<lambda>ch_resolutions.
         ebind (getitem ch_offsets 1) (\<lambda>stride0.
         ebind (emap (dimension_entry ps item) [''3'', ''4'', ''10'', ''2'', ''1'']) (\<lambda>ds.
         (let dims = n_channels # map n_elems ds;
              strides = U64 stride0 # map bytes_inc ds;
              lengths = of_int (n_channels - 1) # map phys_len ds
          in ebind (derive_scales dims lengths) (\<lambda>scales.
             ebind (emap (tile_position ps)
                      (findall [''Data'', ''Image'', ''Attachment'', ''Tile''] item))
               (\<lambda>positions.
             ebind (attr item ''Name'') (\<lambda>nm.
             Inr \<lparr>dims = dims, path = pth @ ''/'', name = nm, channels = n_channels,
                  ch_offsets = ch_offsets, ch_resolutions = ch_resolutions,
                  scale = scales, stride = strides,
                  tile_positions = (map fst positions, map snd positions)\<rparr>)))))))))"

text \<open>The children the walk visits (lines 438 to 440).\<close>

definition tree_children :: "element \<Rightarrow> element list" where
  "tree_children tree =
     (let children = findall [''Children'', ''Element''] tree
      in if length children < 1 then findall [''Element''] tree else children)"

lemma emap_cong [fundef_cong]:
  "xs = ys \<Longrightarrow> (\<And>x. x \<in> set ys \<Longrightarrow> f x = g x) \<Longrightarrow> emap f xs = emap g ys"
  by (induction ys arbitrary: xs) (auto simp: ebind_def split: sum.splits)

lemma ebind_cong [fundef_cong]:
  "r = r' \<Longrightarrow> (\<And>x. r' = Inr x \<Longrightarrow> f x = g x) \<Longrightarrow> ebind r f = ebind r' g"
  by (cases r') (auto simp: ebind_def)

lemma size_child: "c \<in> set (children e) \<Longrightarrow> size c < size e"
  by (cases e) (auto simp: less_Suc_eq_le size_list_estimation')

lemma size_findall: "x \<in> set (findall p e) \<Longrightarrow> size x \<le> size e"
proof (induction p arbitrary: e)
  case Nil then show ?case by simp
next
  case (Cons t ts)
  then obtain c where "c \<in> set (children e)" "x \<in> set (findall ts c)"
    by (auto simp: child_elems_def)
  then show ?case using Cons.IH [of c] size_child [of c e] by simp
qed

lemma size_findall_Cons: "x \<in> set (findall (t # ts) e) \<Longrightarrow> size x < size e"
proof -
  assume "x \<in> set (findall (t # ts) e)"
  then obtain c where "c \<in> set (children e)" "x \<in> set (findall ts c)"
    by (auto simp: child_elems_def)
  then show ?thesis using size_findall [of x ts c] size_child [of c e] by simp
qed

lemma size_tree_children: "x \<in> set (tree_children tree) \<Longrightarrow> size x < size tree"
proof -
  assume "x \<in> set (tree_children tree)"
  then have "x \<in> set (findall [''Children'', ''Element''] tree)
             \<or> x \<in> set (findall [''Element''] tree)"
    unfolding tree_children_def Let_def by (simp only: split: if_splits) blast+
  then show ?thesis using size_findall_Cons by blast
qed

text \<open>\<^verbatim>\<open>_recursive_image_find\<close>. The list \<^verbatim>\<open>return_list\<close> is only ever appended to: the
  model returns the images found below \<open>tree\<close>, in the order of the walk. The function
  is total, since every recursive call is on a proper part of the tree.\<close>

definition has_sub_children :: "element \<Rightarrow> bool" where
  "has_sub_children item \<longleftrightarrow> 0 < length (findall [''Children'', ''Element''] item)"

definition is_image :: "element \<Rightarrow> bool" where
  "is_image item \<longleftrightarrow>
     0 < length (findall [''Data'', ''Image'', ''ImageDescription'', ''Dimensions''] item)"

function recursive_image_find :: "parsers \<Rightarrow> element \<Rightarrow> string \<Rightarrow> error + image_info list" where
  "recursive_image_find ps tree pth =
     ebind (emap (\<lambda>item.
              ebind (attr item ''Name'') (\<lambda>folder_name.
              (let appended_path = (if pth = '''' then folder_name
                                    else pth @ ''/'' @ folder_name)
               in if has_sub_children item then recursive_image_find ps item appended_path
                  else if is_image item
                  then ebind (image_data_dict ps pth item) (\<lambda>data_dict. Inr [data_dict])
                  else Inr [])))
            (tree_children tree))
       (\<lambda>found. Inr (concat found))"
  by pat_completeness auto
termination
  by (relation "measure (\<lambda>(ps, tree, pth). size tree)") (auto dest: size_tree_children)

declare recursive_image_find.simps [simp del]

section \<open>The container file\<close>

text \<open>The open file: its bytes and the position of the next read. The scan of the
  blocks carries, with the handle, the list \<^verbatim>\<open>self.offsets\<close> (here \<open>found\<close>), the
  flag \<^verbatim>\<open>truncated\<close>, \<^verbatim>\<open>truncation_begin\<close> and the warnings emitted. An operation
  returns its result or its exception, and the state it leaves.\<close>

record handle =
  content :: "byte list"
  pos :: nat

record scanner = handle +
  found :: "(int \<times> int) list"
  truncated :: bool
  truncation_begin :: "nat option"
  warned :: "string list"

text \<open>Sequencing on a state: the first exception ends the computation and the state is
  the one the failing step left.\<close>

definition io_return :: "'a \<Rightarrow> 's \<Rightarrow> (error + 'a) \<times> 's" where
  "io_return x s = (Inr x, s)"

definition io_bind ::
  "('s \<Rightarrow> (error + 'a) \<times> 's) \<Rightarrow> ('a \<Rightarrow> 's \<Rightarrow> (error + 'b) \<times> 's) \<Rightarrow> 's \<Rightarrow> (error + 'b) \<times> 's" where
  "io_bind m f s = (case m s of (Inl e, s') \<Rightarrow> (Inl e, s') | (Inr x, s') \<Rightarrow> f x s')"

text \<open>\<^verbatim>\<open>read(n)\<close>, \<^verbatim>\<open>seek(off, whence)\<close> and \<^verbatim>\<open>tell()\<close>. A read returns the bytes that
  are there, at most \<open>n\<close>. A seek to a negative position raises OSError and leaves the
  position; an offset that does not fit 64 bits raises ValueError. (Limits of the file
  system on large positions are outside the model.)\<close>

definition handle_read :: "nat \<Rightarrow> 'a handle_scheme \<Rightarrow> (error + byte list) \<times> 'a handle_scheme" where
  "handle_read n h =
     (let bs = take n (drop (pos h) (content h))
      in (Inr bs, h\<lparr>pos := pos h + length bs\<rparr>))"

definition handle_seek :: "int \<Rightarrow> int \<Rightarrow> 'a handle_scheme \<Rightarrow> (error + unit) \<times> 'a handle_scheme" where
  "handle_seek off whence h =
     (let base = (if whence = 0 then 0
                  else if whence = 1 then int (pos h)
                  else int (length (content h)));
          target = base + off
      in if off < - (2 ^ 63) \<or> 2 ^ 63 \<le> off
         then (Inl (ValueError ''cannot fit 'int' into an offset-sized integer''), h)
         else if target < 0 then (Inl OSError, h)
         else (Inr (), h\<lparr>pos := nat target\<rparr>))"

definition handle_tell :: "'a handle_scheme \<Rightarrow> (error + nat) \<times> 'a handle_scheme" where
  "handle_tell h = (Inr (pos h), h)"

text \<open>\<^verbatim>\<open>str(n)\<close> for a position.\<close>

function str_nat :: "nat \<Rightarrow> string" where
  "str_nat n = (if n < 10 then [char_of (48 + n)]
                else str_nat (n div 10) @ [char_of (48 + n mod 10)])"
  by pat_completeness auto
termination
  by (relation "measure id") auto

declare str_nat.simps [simp del]

text \<open>\<^verbatim>\<open>struct.unpack("I", ...)\<close> and \<^verbatim>\<open>struct.unpack("Q", ...)\<close>: an unsigned
  little-endian integer of 4 or 8 bytes; fewer bytes raise \<^verbatim>\<open>struct.error\<close>, which is
  not a ValueError.\<close>

definition le_value :: "byte list \<Rightarrow> nat" where
  "le_value bs = foldr (\<lambda>b v. unat b + 256 * v) bs 0"

definition read_long :: "'a handle_scheme \<Rightarrow> (error + nat) \<times> 'a handle_scheme" where
  "read_long = io_bind (handle_read 8) (\<lambda>bs.
     if length bs = 8 then io_return (le_value bs) else Pair (Inl StructError))"

definition read_int :: "'a handle_scheme \<Rightarrow> (error + nat) \<times> 'a handle_scheme" where
  "read_int = io_bind (handle_read 4) (\<lambda>bs.
     if length bs = 4 then io_return (le_value bs) else Pair (Inl StructError))"

definition check_truncated :: "'a handle_scheme \<Rightarrow> (error + bool) \<times> 'a handle_scheme" where
  "check_truncated =
     io_bind (handle_seek (- 4) 1) (\<lambda>_.
     io_bind (handle_read 100) (\<lambda>bs.
     if bs = replicate 100 0
     then io_bind (handle_seek (- 100) 1) (\<lambda>_. io_return True)
     else io_bind (handle_seek (- 100) 1) (\<lambda>_. io_return False)))"

definition check_magic :: "bool \<Rightarrow> 'a handle_scheme \<Rightarrow> (error + bool) \<times> 'a handle_scheme" where
  "check_magic bool_return =
     io_bind (handle_read 4) (\<lambda>bs.
     if bs = [0x70, 0x00, 0x00, 0x00] then io_return True
     else if \<not> bool_return
     then io_bind handle_tell (\<lambda>p. Pair (Inl (ValueError
            (''This is probably not a LIF file. Expected LIF magic byte at '' @ str_nat p))))
     else io_return False)"

definition check_mem :: "bool \<Rightarrow> 'a handle_scheme \<Rightarrow> (error + bool) \<times> 'a handle_scheme" where
  "check_mem bool_return =
     io_bind (handle_read 1) (\<lambda>bs.
     if bs = [0x2a] then io_return True
     else if \<not> bool_return
     then io_bind handle_tell (\<lambda>p. Pair (Inl (ValueError
            (''Expected LIF memory byte at '' @ str_nat p))))
     else io_return False)"

definition get_len :: "'a handle_scheme \<Rightarrow> (error + nat) \<times> 'a handle_scheme" where
  "get_len =
     io_bind handle_tell (\<lambda>position.
     io_bind (handle_seek 0 2) (\<lambda>_.
     io_bind handle_tell (\<lambda>file_len.
     io_bind (handle_seek (int position) 0) (\<lambda>_.
     io_return file_len))))"

text \<open>The body of the \<^verbatim>\<open>try\<close> in the loop of \<^verbatim>\<open>LifFile.__init__\<close> (lines 533 to
  552), and the loop body with its \<^verbatim>\<open>except ValueError\<close> (lines 554 to 564).\<close>

definition append_offset :: "int \<times> int \<Rightarrow> scanner \<Rightarrow> (error + unit) \<times> scanner" where
  "append_offset b st = (Inr (), st\<lparr>found := found st @ [b]\<rparr>)"

definition scan_block :: "scanner \<Rightarrow> (error + unit) \<times> scanner" where
  "scan_block =
     io_bind (check_magic False) (\<lambda>_.
     io_bind (handle_seek 4 1) (\<lambda>_.
     io_bind (check_mem False) (\<lambda>_.
     io_bind read_int (\<lambda>block_len.
     io_bind (check_mem True) (\<lambda>is_mem.
     io_bind (if \<not> is_mem
              then io_bind (handle_seek (- 5) 1) (\<lambda>_.
                   io_bind read_long (\<lambda>block_len.
                   io_bind (check_mem False) (\<lambda>_.
                   io_return block_len)))
              else io_return block_len) (\<lambda>block_len.
     io_bind read_int (\<lambda>n.
     (let description_len = n * 2
      in io_bind (if block_len > 0
                  then io_bind handle_tell (\<lambda>p.
                       append_offset (int p + int description_len, int block_len))
                  else io_return ()) (\<lambda>_.
         handle_seek (int description_len + int block_len) 1)))))))))"

definition truncation_warning :: string where
  "truncation_warning =
     ''LIF file is likely truncated. Be advised, it appears that some images are blank. ''"

definition scan_step :: "scanner \<Rightarrow> (error + unit) \<times> scanner" where
  "scan_step st =
     (case scan_block st of
        (Inl (ValueError msg), st1) \<Rightarrow>
          (case check_truncated st1 of
             (Inl e, st2) \<Rightarrow> (Inl e, st2)
           | (Inr True, st2) \<Rightarrow>
               handle_seek 0 2
                 (st2\<lparr>truncation_begin := Some (pos st2),
                      warned := warned st2 @ [truncation_warning],
                      truncated := True\<rparr>)
           | (Inr False, st2) \<Rightarrow> (Inl (ValueError msg), st2))
      | r \<Rightarrow> r)"

text \<open>Progress of the scan, for the termination of its loop: what an operation that
  succeeds adds to the position at least (\<open>adv\<close>), and what no operation changes
  (\<open>keeps\<close>).\<close>

definition adv :: "(scanner \<Rightarrow> (error + 'a) \<times> scanner) \<Rightarrow> int \<Rightarrow> bool" where
  "adv m a \<longleftrightarrow>
     (\<forall>s x s'. m s = (Inr x, s') \<longrightarrow> content s' = content s \<and> int (pos s) + a \<le> int (pos s'))"

lemma advI:
  "(\<And>s x s'. m s = (Inr x, s') \<Longrightarrow> content s' = content s \<and> int (pos s) + a \<le> int (pos s'))
     \<Longrightarrow> adv m a"
  by (auto simp: adv_def)

lemma adv_weaken: "adv m a \<Longrightarrow> b \<le> a \<Longrightarrow> adv m b"
  by (fastforce simp: adv_def)

lemma adv_bind:
  assumes "adv m a" and "\<And>x. adv (f x) b"
  shows "adv (io_bind m f) (a + b)"
proof (rule advI)
  fix s y s''
  assume "io_bind m f s = (Inr y, s'')"
  then obtain x s' where m: "m s = (Inr x, s')" and f: "f x s' = (Inr y, s'')"
    by (auto simp: io_bind_def split: prod.splits sum.splits)
  from assms(1) m have 1: "content s' = content s" "int (pos s) + a \<le> int (pos s')"
    by (auto simp: adv_def)
  from assms(2) [of x] f have 2: "content s'' = content s'" "int (pos s') + b \<le> int (pos s'')"
    by (auto simp: adv_def)
  from 1 2 show "content s'' = content s \<and> int (pos s) + (a + b) \<le> int (pos s'')"
    by simp
qed

lemma adv_return: "adv (io_return x) 0"
  by (simp add: adv_def io_return_def)

lemma adv_raise: "adv (Pair (Inl e)) a"
  by (simp add: adv_def)

lemma adv_if: "adv m a \<Longrightarrow> adv n a \<Longrightarrow> adv (if c then m else n) a"
  by simp

lemma adv_read: "adv (handle_read n) 0"
  by (auto simp: adv_def handle_read_def Let_def)

lemma adv_tell: "adv handle_tell 0"
  by (auto simp: adv_def handle_tell_def)

lemma adv_seek_cur: "adv (handle_seek off 1) off"
  by (auto simp: adv_def handle_seek_def Let_def split: if_splits)

lemma adv_append: "adv (append_offset b) 0"
  by (auto simp: adv_def append_offset_def)

lemma adv_read_int: "adv read_int 4"
  by (auto simp: adv_def read_int_def io_bind_def handle_read_def io_return_def Let_def
      split: if_splits)

lemma adv_read_long: "adv read_long 8"
  by (auto simp: adv_def read_long_def io_bind_def handle_read_def io_return_def Let_def
      split: if_splits)

lemma adv_check_mem: "adv (check_mem b) 0"
  by (auto simp: adv_def check_mem_def io_bind_def handle_read_def io_return_def handle_tell_def
      Let_def split: if_splits)

lemma adv_check_magic: "adv (check_magic False) 4"
proof (rule advI)
  fix s :: scanner and x s'
  assume a: "check_magic False s = (Inr x, s')"
  let ?bs = "take 4 (drop (pos s) (content s))"
  from a have "?bs = [0x70, 0x00, 0x00, 0x00] \<and> s' = s\<lparr>pos := pos s + length ?bs\<rparr>"
    by (auto simp: check_magic_def io_bind_def handle_read_def io_return_def handle_tell_def
        Let_def split: if_splits)
  then have bs: "?bs = [0x70, 0x00, 0x00, 0x00]" and s': "s' = s\<lparr>pos := pos s + length ?bs\<rparr>"
    by blast+
  have len: "length ?bs = 4" unfolding bs by simp
  have "s' = s\<lparr>pos := pos s + 4\<rparr>" by (rule s' [unfolded len])
  then show "content s' = content s \<and> int (pos s) + 4 \<le> int (pos s')"
    by simp
qed

lemma adv_scan_block: "adv scan_block 16"
proof -
  have long: "adv (io_bind (handle_seek (- 5) 1) (\<lambda>_.
                   io_bind read_long (\<lambda>block_len.
                   io_bind (check_mem False) (\<lambda>_.
                   io_return block_len)))) (- 5 + (8 + (0 + 0)))"
    by (intro adv_bind adv_seek_cur adv_read_long adv_check_mem adv_return)
  have len: "adv (if \<not> is_mem
              then io_bind (handle_seek (- 5) 1) (\<lambda>_.
                   io_bind read_long (\<lambda>block_len.
                   io_bind (check_mem False) (\<lambda>_.
                   io_return block_len)))
              else io_return block_len) 0" for is_mem and block_len :: nat
    using adv_weaken [OF long, of 0] adv_return [of block_len] by (cases is_mem) simp_all
  have app: "adv (if block_len > 0
                  then io_bind handle_tell (\<lambda>p. append_offset (int p + int d, int block_len))
                  else io_return ()) 0" for block_len d :: nat
  proof -
    have "adv (io_bind handle_tell (\<lambda>p. append_offset (int p + int d, int block_len))) (0 + 0)"
      by (intro adv_bind adv_tell adv_append)
    then show ?thesis using adv_return [of "()"] by (cases "block_len > 0") simp_all
  qed
  have skip: "adv (handle_seek (int d + int block_len) 1) 0" for block_len d :: nat
    by (rule adv_weaken [OF adv_seek_cur]) simp
  have "adv scan_block (4 + (4 + (0 + (4 + (0 + (0 + (4 + (0 + 0))))))))"
    unfolding scan_block_def Let_def
    by (intro adv_bind adv_check_magic adv_seek_cur adv_check_mem adv_read_int len app skip)
  then show ?thesis by simp
qed

definition keeps :: "(scanner \<Rightarrow> (error + 'a) \<times> scanner) \<Rightarrow> bool" where
  "keeps m \<longleftrightarrow>
     (\<forall>s r s'. m s = (r, s') \<longrightarrow>
        content s' = content s \<and> truncated s' = truncated s
        \<and> truncation_begin s' = truncation_begin s \<and> warned s' = warned s
        \<and> (\<exists>bs. found s' = found s @ bs))"

lemma keeps_bind:
  assumes "keeps m" and "\<And>x. keeps (f x)"
  shows "keeps (io_bind m f)"
  unfolding keeps_def
proof (intro allI impI)
  fix s r s''
  assume b: "io_bind m f s = (r, s'')"
  show "content s'' = content s \<and> truncated s'' = truncated s
        \<and> truncation_begin s'' = truncation_begin s \<and> warned s'' = warned s
        \<and> (\<exists>bs. found s'' = found s @ bs)"
  proof (cases "m s")
    case (Pair a s')
    show ?thesis
    proof (cases a)
      case (Inl e)
      with Pair b have "m s = (Inl e, s'')" by (simp add: io_bind_def)
      with assms(1) show ?thesis by (simp add: keeps_def)
    next
      case (Inr x)
      with Pair b have f: "f x s' = (r, s'')" by (simp add: io_bind_def)
      from assms(1) Pair have 1: "content s' = content s" "truncated s' = truncated s"
        "truncation_begin s' = truncation_begin s" "warned s' = warned s"
        "\<exists>bs. found s' = found s @ bs"
        by (auto simp: keeps_def)
      from assms(2) [of x] f have 2: "content s'' = content s'" "truncated s'' = truncated s'"
        "truncation_begin s'' = truncation_begin s'" "warned s'' = warned s'"
        "\<exists>bs. found s'' = found s' @ bs"
        by (auto simp: keeps_def)
      from 1 2 show ?thesis by auto
    qed
  qed
qed

lemma keeps_return: "keeps (io_return x)"
  by (simp add: keeps_def io_return_def)

lemma keeps_raise: "keeps (Pair (Inl e))"
  by (simp add: keeps_def)

lemma keeps_if: "keeps m \<Longrightarrow> keeps n \<Longrightarrow> keeps (if c then m else n)"
  by simp

lemma keeps_read: "keeps (handle_read n)"
  by (auto simp: keeps_def handle_read_def Let_def)

lemma keeps_tell: "keeps handle_tell"
  by (auto simp: keeps_def handle_tell_def)

lemma keeps_seek: "keeps (handle_seek off w)"
  by (auto simp: keeps_def handle_seek_def Let_def split: if_splits)

lemma keeps_append: "keeps (append_offset b)"
  by (auto simp: keeps_def append_offset_def)

lemma keeps_read_int: "keeps read_int"
  unfolding read_int_def by (intro keeps_bind keeps_read keeps_if keeps_return keeps_raise)

lemma keeps_read_long: "keeps read_long"
  unfolding read_long_def by (intro keeps_bind keeps_read keeps_if keeps_return keeps_raise)

lemma keeps_check_mem: "keeps (check_mem b)"
  unfolding check_mem_def
  by (intro keeps_bind keeps_read keeps_if keeps_return keeps_raise keeps_tell)

lemma keeps_check_magic: "keeps (check_magic b)"
  unfolding check_magic_def
  by (intro keeps_bind keeps_read keeps_if keeps_return keeps_raise keeps_tell)

lemma keeps_check_truncated: "keeps check_truncated"
  unfolding check_truncated_def
  by (intro keeps_bind keeps_read keeps_if keeps_return keeps_seek)

lemma keeps_scan_block: "keeps scan_block"
  unfolding scan_block_def Let_def
  by (intro keeps_bind keeps_check_magic keeps_seek keeps_check_mem keeps_read_int keeps_if
      keeps_read_long keeps_return keeps_tell keeps_append)

lemma scan_step_progress:
  assumes "scan_step st = (Inr u, st')" and "pos st < length (content st)"
  shows "content st' = content st \<and> pos st < pos st'"
proof (cases "scan_block st")
  case (Pair r st1)
  have c1: "content st1 = content st" using keeps_scan_block Pair by (simp add: keeps_def)
  show ?thesis
  proof (cases r)
    case (Inr x)
    with Pair assms(1) have "scan_block st = (Inr u, st')" by (simp add: scan_step_def)
    with adv_scan_block show ?thesis by (fastforce simp: adv_def)
  next
    case (Inl e)
    show ?thesis
    proof (cases e)
      case (ValueError msg)
      obtain b st2 where ct: "check_truncated st1 = (b, st2)" by (cases "check_truncated st1")
      have c2: "content st2 = content st1" using keeps_check_truncated ct by (simp add: keeps_def)
      from assms(1) Pair Inl ValueError ct
      have "b = Inr True \<and> handle_seek 0 2
                 (st2\<lparr>truncation_begin := Some (pos st2),
                      warned := warned st2 @ [truncation_warning],
                      truncated := True\<rparr>) = (Inr u, st')"
        by (auto simp: scan_step_def split: sum.splits bool.splits)
      then have "content st' = content st2 \<and> pos st' = length (content st2)"
        by (auto simp: handle_seek_def Let_def split: if_splits)
      with c1 c2 assms(2) show ?thesis by simp
    next
      case other: (KeyError k)
      with Pair Inl assms(1) show ?thesis by (simp add: scan_step_def)
    qed (use Pair Inl assms(1) in \<open>simp_all add: scan_step_def\<close>)
  qed
qed

text \<open>The loop \<^verbatim>\<open>while f.tell() < f_len\<close>. It terminates: a round that does not raise
  moves the position forward.\<close>

function scan_loop :: "scanner \<Rightarrow> (error + unit) \<times> scanner" where
  "scan_loop st =
     (if pos st < length (content st)
      then (case scan_step st of
              (Inl e, st') \<Rightarrow> (Inl e, st')
            | (Inr u, st') \<Rightarrow> scan_loop st')
      else (Inr (), st))"
  by pat_completeness auto
termination
proof (relation "measure (\<lambda>st. length (content st) - pos st)")
  fix st :: scanner and x1 st' u
  assume "pos st < length (content st)" "(x1, st') = scan_step st" "x1 = Inr u"
  then have "content st' = content st \<and> pos st < pos st'"
    using scan_step_progress [of st u st'] by simp
  then show "(st', st) \<in> measure (\<lambda>st. length (content st) - pos st)"
    using \<open>pos st < length (content st)\<close> by auto
qed simp

declare scan_loop.simps [simp del]

text \<open>\<^verbatim>\<open>LifFile.__init__\<close>: the header and the scan (\<open>open_scan\<close>; \<^verbatim>\<open>f_len\<close> is
  the length of the content, which the loop reads off the state), the walk over the
  document, and the reconciliation of blocks and images. The list \<^verbatim>\<open>self.offsets\<close>
  of the object is the field \<open>block_offsets\<close>.\<close>

record LifFile =
  xml_root :: element
  block_offsets :: "(int \<times> int) list"
  image_list :: "image_info list"
  num_images :: nat

definition fresh :: "byte list \<Rightarrow> scanner" where
  "fresh file = \<lparr>content = file, pos = 0, found = [], truncated = False,
                  truncation_begin = None, warned = []\<rparr>"

definition open_scan :: "parsers \<Rightarrow> scanner \<Rightarrow> (error + element) \<times> scanner" where
  "open_scan ps =
     io_bind get_len (\<lambda>f_len.
     io_bind (check_magic False) (\<lambda>_.
     io_bind (handle_seek 8 0) (\<lambda>_.
     io_bind (check_mem False) (\<lambda>_.
     io_bind read_int (\<lambda>header_len.
     io_bind (handle_read (header_len * 2)) (\<lambda>raw.
     io_bind (Pair (fromstring ps raw)) (\<lambda>xml.
     io_bind scan_loop (\<lambda>_.
     io_return xml))))))))"

definition mismatch_message :: string where
  "mismatch_message = ''Number of images is not equal to number of offsets, and this file does not appear to be truncated. Something has gone wrong.''"

definition reconcile :: "element \<Rightarrow> image_info list \<Rightarrow> scanner \<Rightarrow> error + LifFile" where
  "reconcile xml images st =
     ebind (if truncated st
            then (let num_truncated = int (length images) - int (length (found st))
                  in if num_truncated \<le> 0 then Inr (found st)
                     else (case truncation_begin st of
                             None \<Rightarrow> Inl UnboundLocalError
                           | Some tb \<Rightarrow>
                               Inr (found st @ replicate (nat num_truncated) (int tb, 0))))
            else Inr (found st)) (\<lambda>offs.
     if length images \<noteq> length offs \<and> \<not> truncated st
     then Inl (ValueError mismatch_message)
     else Inr \<lparr>xml_root = xml, block_offsets = offs, image_list = images,
               num_images = length images\<rparr>)"

definition LifFile_init :: "parsers \<Rightarrow> byte list \<Rightarrow> error + LifFile" where
  "LifFile_init ps file =
     (case open_scan ps (fresh file) of
        (Inl e, st) \<Rightarrow> Inl e
      | (Inr xml, st) \<Rightarrow>
          ebind (recursive_image_find ps xml '''') (\<lambda>images. reconcile xml images st))"

definition flagged :: "scanner \<Rightarrow> bool" where
  "flagged st \<longleftrightarrow> truncated st = (truncation_begin st \<noteq> None)"

definition lowf :: "(scanner \<Rightarrow> (error + 'a) \<times> scanner) \<Rightarrow> int \<Rightarrow> bool" where
  "lowf m a \<longleftrightarrow> (\<forall>s e s'. m s = (Inl e, s') \<longrightarrow> int (pos s) + a \<le> int (pos s'))"

section \<open>A small image for the concrete instances\<close>

text \<open>Two channels, two z planes, no time or tile axis, planes of 2 x 2 pixels of one
  byte: a block of 16 bytes, stored from byte 8 of a file of 24 bytes whose byte
  \<open>i\<close> has the value \<open>i\<close>.\<close>

definition demo_info :: image_info where
  "demo_info =
     \<lparr>dims = [2, 2, 1, 1, 2, 2], path = ''/'', name = ''img'', channels = 2,
      ch_offsets = [0, 4], ch_resolutions = [8, 8],
      scale = [1, 2, 1, 1, 1, 1],
      stride = [U64 4, U64 8, PyInt 0, PyInt 0, U64 2, U64 1],
      tile_positions = ([], [])\<rparr>"

definition demo_image :: LifImage where
  "demo_image =
     \<lparr>dims = [2, 2, 1, 1, 2, 2], path = ''/'', name = ''img'', channels = 2,
      ch_offsets = [0, 4], ch_resolutions = [8, 8],
      scale = [1, 2, 1, 1, 1, 1],
      stride = [U64 4, U64 8, PyInt 0, PyInt 0, U64 2, U64 1],
      tile_positions = ([], []),
      offsets = (8, 16), nz = 2, nt = 1, dtype = 1\<rparr>"

definition demo_file :: "byte list" where
  "demo_file = [0, 1, 2, 3, 4, 5, 6, 7, 8, 9, 10, 11, 12, 13, 14, 15,
                16, 17, 18, 19, 20, 21, 22, 23]"

text \<open>An image whose block was lost to truncation: planes of 16 x 16 pixels, the
  block \<open>(8, 0)\<close>, in a file that ends with 100 zero bytes from byte 8 on.\<close>

definition trunc_image :: LifImage where
  "trunc_image =
     \<lparr>dims = [2, 2, 1, 1, 16, 16], path = ''/'', name = ''late'', channels = 2,
      ch_offsets = [0, 256], ch_resolutions = [8, 8],
      scale = [1, 2, 1, 1, 15, 15],
      stride = [U64 256, U64 512, PyInt 0, PyInt 0, U64 16, U64 1],
      tile_positions = ([], []),
      offsets = (8, 0), nz = 2, nt = 1, dtype = 1\<rparr>"

definition trunc_file :: "byte list" where
  "trunc_file = [1, 2, 3, 4, 5, 6, 7, 8] @ replicate 100 0"

text \<open>Two channels of 16 bits, one z plane, planes of 2 x 2 pixels: again 16 bytes.\<close>

definition deep_info :: image_info where
  "deep_info =
     \<lparr>dims = [2, 1, 1, 1, 2, 2], path = ''/'', name = ''deep'', channels = 2,
      ch_offsets = [0, 8], ch_resolutions = [16, 16],
      scale = [1, 1, 1, 1, 1, 1],
      stride = [U64 8, PyInt 0, PyInt 0, PyInt 0, U64 4, U64 2],
      tile_positions = ([], [])\<rparr>"

definition deep_image :: LifImage where
  "deep_image =
     \<lparr>dims = [2, 1, 1, 1, 2, 2], path = ''/'', name = ''deep'', channels = 2,
      ch_offsets = [0, 8], ch_resolutions = [16, 16],
      scale = [1, 1, 1, 1, 1, 1],
      stride = [U64 8, PyInt 0, PyInt 0, PyInt 0, U64 4, U64 2],
      tile_positions = ([], []),
      offsets = (8, 16), nz = 1, nt = 1, dtype = 2\<rparr>"

text \<open>A document for the concrete instances.\<close>

definition is_digit :: "char \<Rightarrow> bool" where
  "is_digit c \<longleftrightarrow> 48 \<le> (of_char c :: nat) \<and> (of_char c :: nat) \<le> 57"

definition dec_value :: "string \<Rightarrow> nat" where
  "dec_value s = foldl (\<lambda>a c. 10 * a + (of_char c - 48)) 0 s"

definition demo_int :: "string \<Rightarrow> error + int" where
  "demo_int s = (if s \<noteq> [] \<and> list_all is_digit s then Inr (int (dec_value s))
                 else Inl (ValueError ''invalid literal for int() with base 10''))"

definition demo_uint64 :: "string \<Rightarrow> error + 64 word" where
  "demo_uint64 s = (if s \<noteq> [] \<and> list_all is_digit s then as_u64 (int (dec_value s))
                    else Inl (ValueError ''invalid literal for int() with base 10''))"

definition demo_float :: "string \<Rightarrow> error + rat" where
  "demo_float s = (if s = ''1e-06'' then Inr (1 / 10 ^ 6)
                   else if s = ''9e-06'' then Inr (9 / 10 ^ 6)
                   else Inl (ValueError ''could not convert string to float''))"

definition demo_parsers :: parsers where
  "demo_parsers = \<lparr>py_int_of = demo_int, py_float_of = demo_float, np_uint64_of = demo_uint64,
                    fromstring = (\<lambda>bs. Inl (ValueError ''no document''))\<rparr>"

definition channel_desc :: "string \<Rightarrow> string \<Rightarrow> element" where
  "channel_desc inc res =
     Element ''ChannelDescription'' [(''BytesInc'', inc), (''Resolution'', res)] []"

definition dim_desc :: "string \<Rightarrow> string \<Rightarrow> string \<Rightarrow> string \<Rightarrow> element" where
  "dim_desc i n len inc =
     Element ''DimensionDescription''
       [(''DimID'', i), (''NumberOfElements'', n), (''Length'', len), (''BytesInc'', inc)] []"

definition leaf :: "string \<Rightarrow> element list \<Rightarrow> element list \<Rightarrow> element" where
  "leaf nm chans dds =
     Element ''Element'' [(''Name'', nm)]
       [Element ''Data'' []
         [Element ''Image'' []
           [Element ''ImageDescription'' []
             [Element ''Channels'' [] chans, Element ''Dimensions'' [] dds]]]]"

definition demo_item :: element where
  "demo_item = leaf ''img'' [channel_desc ''0'' ''8'', channel_desc ''4'' ''8'']
     [dim_desc ''1'' ''2'' ''1e-06'' ''1'', dim_desc ''2'' ''2'' ''1e-06'' ''2'',
      dim_desc ''3'' ''2'' ''1e-06'' ''8'']"

definition depth_item :: element where
  "depth_item = leaf ''stack'' [channel_desc ''0'' ''8'', channel_desc ''4'' ''8'']
     [dim_desc ''1'' ''2'' ''1e-06'' ''1'', dim_desc ''2'' ''2'' ''1e-06'' ''2'',
      dim_desc ''3'' ''10'' ''9e-06'' ''8'']"

definition faint_item :: element where
  "faint_item = leaf ''img'' [channel_desc ''0'' ''12'', channel_desc ''4'' ''12'']
     [dim_desc ''1'' ''2'' ''1e-06'' ''1'', dim_desc ''2'' ''2'' ''1e-06'' ''2'',
      dim_desc ''3'' ''2'' ''1e-06'' ''8'']"

definition mono_item :: element where
  "mono_item = leaf ''mono'' [channel_desc ''0'' ''8'']
     [dim_desc ''1'' ''2'' ''1e-06'' ''1'', dim_desc ''2'' ''2'' ''1e-06'' ''2'']"

text \<open>Container files for the concrete instances: a header whose document is
  \<^verbatim>\<open><a/>\<close> (UTF-16), followed by nine bytes that are no block header; by one block
  of two bytes and 100 zero bytes; by 100 zero bytes alone. \<open>canned_parsers\<close> stands
  for a decoder whose document is the demo tree.\<close>

definition header_a :: "byte list" where
  "header_a = [0x70, 0, 0, 0, 0, 0, 0, 0, 0x2a, 4, 0, 0, 0,
               0x3c, 0, 0x61, 0, 0x2f, 0, 0x3e, 0]"

definition tiny_file :: "byte list" where
  "tiny_file = header_a @ replicate 9 1"

definition one_block :: "byte list" where
  "one_block = [0x70, 0, 0, 0, 0, 0, 0, 0, 0x2a, 2, 0, 0, 0, 0x2a, 1, 0, 0, 0,
                0x41, 0, 0xAA, 0xBB]"

definition surplus_file :: "byte list" where
  "surplus_file = header_a @ one_block @ replicate 100 0"

definition doc_parsers :: parsers where
  "doc_parsers = demo_parsers\<lparr>fromstring :=
      (\<lambda>raw. if raw = [0x3c, 0, 0x61, 0, 0x2f, 0, 0x3e, 0] then Inr (Element ''a'' [] [])
             else Inl ParseError)\<rparr>"

definition canned_parsers :: parsers where
  "canned_parsers = demo_parsers\<lparr>fromstring :=
      (\<lambda>raw. Inr (Element ''LMSDataContainerHeader'' [] [demo_item]))\<rparr>"

definition padded_file :: "byte list" where
  "padded_file = header_a @ replicate 100 0"

section \<open>Basic facts\<close>

lemma ebind_Inr [simp]: "ebind (Inr x) f = f x"
  by (simp add: ebind_def)

lemma ebind_Inl [simp]: "ebind (Inl e) f = Inl e"
  by (simp add: ebind_def)

lemma getitem_nat [simp]: "i < length xs \<Longrightarrow> getitem xs (int i) = Inr (xs ! i)"
  by (simp add: getitem_def)

lemma getitem_numeral [simp]:
  "numeral k < length xs \<Longrightarrow> getitem xs (numeral k) = Inr (xs ! numeral k)"
  using getitem_nat [of "numeral k" xs] by simp

lemma getitem_0 [simp]: "xs \<noteq> [] \<Longrightarrow> getitem xs 0 = Inr (xs ! 0)"
  using getitem_nat [of 0 xs] by simp

lemma getitem_1 [simp]: "1 < length xs \<Longrightarrow> getitem xs 1 = Inr (xs ! 1)"
  using getitem_nat [of 1 xs] by simp

lemma item_index_upper:
  assumes "z < Z" "t < T" "c < C" "m < M" "0 \<le> C" "0 \<le> Z" "0 \<le> T"
  shows "C * Z * T * m + C * Z * t + z + Z * c < C * Z * T * (M::int)"
proof -
  have m: "C * Z * T * m \<le> C * Z * T * (M - 1)"
    using assms by (intro mult_left_mono) auto
  have t: "C * Z * t \<le> C * Z * (T - 1)"
    using assms by (intro mult_left_mono) auto
  have c: "Z * c \<le> Z * (C - 1)"
    using assms by (intro mult_left_mono) auto
  have "C * Z * T * (M - 1) + C * Z * (T - 1) + (Z - 1) + Z * (C - 1) = C * Z * T * M - 1"
    by (simp add: algebra_simps)
  with m t c assms(1) show ?thesis by linarith
qed

lemma get_frame_passes_checks:
  assumes "z < nz self" "t < nt self" "c < channels self" "m < dims self ! 3"
    and "3 < length (dims self)"
    and "0 \<le> channels self" "0 \<le> nz self" "0 \<le> nt self"
  shows "get_frame self file z t c m return_as_np =
           (if return_as_np
            then map_sum id Array (get_item_np self file (item_index self z t c m))
            else map_sum id Image (get_item self file (item_index self z t c m)))"
proof -
  have "item_index self z t c m < channels self * nz self * nt self * (dims self ! 3)"
    unfolding item_index_def using assms by (intro item_index_upper) auto
  then have le: "\<not> channels self * nz self * nt self * (dims self ! 3) < item_index self z t c m"
    by simp
  have idx: "channels self * nz self * nt self * m + channels self * nz self * t + z + nz self * c
             = item_index self z t c m"
    by (simp add: item_index_def)
  show ?thesis
    using assms(1-5) le
    by (simp add: get_frame_def Let_def idx)
qed

lemma ebind_eq_Inr: "ebind r f = Inr y \<longleftrightarrow> (\<exists>x. r = Inr x \<and> f x = Inr y)"
  by (cases r) (simp_all add: ebind_def)

lemma np_reshape_itemsize: "np_reshape isz buf shp = Inr a \<Longrightarrow> arr_itemsize a = isz"
  by (auto simp: np_reshape_def Let_def split: if_splits)

lemma get_frame_np_itemsize: "get_frame_np self file z t c m = Inr a \<Longrightarrow> arr_itemsize a = dtype self"
  by (auto simp: get_frame_np_def Let_def ebind_eq_Inr dest: np_reshape_itemsize)

lemma get_item_np_itemsize: "get_item_np self file n = Inr a \<Longrightarrow> arr_itemsize a = dtype self"
  by (auto simp: get_item_np_def Let_def ebind_eq_Inr dest: np_reshape_itemsize split: if_splits)

lemma get_stack_np_itemsize: "get_stack_np self file m = Inr a \<Longrightarrow> arr_itemsize a = dtype self"
  by (auto simp: get_stack_np_def Let_def ebind_eq_Inr dest: np_reshape_itemsize)

lemma map_sum_eq_Inr: "map_sum id g r = Inr y \<longleftrightarrow> (\<exists>x. r = Inr x \<and> y = g x)"
  by (cases r) auto

lemma LifImage_init_dtype:
  assumes "LifImage_init info offs = Inr self"
  shows "ch_resolutions info \<noteq> [] \<and> int_truediv (ch_resolutions info ! 0) 8 = Inr (int (dtype self))"
  using assms
  by (auto simp: LifImage_init_def ebind_eq_Inr getitem_def np_dtype_u_def split: if_splits)

lemma LifImage_init_cases:
  assumes "2 < length (dims info)" and "ch_resolutions info \<noteq> []"
  shows "LifImage_init info offs =
     (if ch_resolutions info ! 0 div 8 = 1 \<or> ch_resolutions info ! 0 div 8 = 2
         \<or> ch_resolutions info ! 0 div 8 = 4 \<or> ch_resolutions info ! 0 div 8 = 8
      then Inr \<lparr>dims = dims info, path = path info, name = name info,
            channels = channels info, ch_offsets = ch_offsets info,
            ch_resolutions = ch_resolutions info, scale = scale info,
            stride = stride info, tile_positions = tile_positions info,
            offsets = offs, nz = dims info ! 1, nt = dims info ! 2,
            dtype = nat (ch_resolutions info ! 0 div 8)\<rparr>
      else Inl TypeError)"
proof (cases "0 \<le> ch_resolutions info ! 0")
  case True
  then show ?thesis using assms
    by (simp add: LifImage_init_def int_truediv_def np_dtype_u_def)
next
  case False
  then have neg: "ch_resolutions info ! 0 < 0" by simp
  then have "ch_resolutions info ! 0 div 8 < 0" by simp
  moreover have "- (\<bar>ch_resolutions info ! 0\<bar> div 8) \<le> 0" by simp
  ultimately show ?thesis using assms neg
    by (simp add: LifImage_init_def int_truediv_def np_dtype_u_def)
qed

lemma list6: "length xs = 6 \<Longrightarrow> xs = [xs ! 0, xs ! 1, xs ! 2, xs ! 3, xs ! 4, xs ! 5]"
  by (auto simp: list_eq_iff_nth_eq nth_Cons' numeral_eq_Suc less_Suc_eq)

lemma plane_fits:
  assumes "n < P" "0 \<le> (B::int)"
  shows "B * n + B \<le> B * P"
proof -
  have "B * (n + 1) \<le> B * P" using assms by (intro mult_left_mono) auto
  then show ?thesis by (simp add: algebra_simps)
qed

lemma nat_fit:
  assumes "0 \<le> off" "0 \<le> cnt" "off + cnt * int d \<le> int L"
  shows "nat cnt * d \<le> L - nat off"
proof -
  obtain a where a: "off = int a" using assms(1) by (metis nat_0_le)
  obtain b where b: "cnt = int b" using assms(2) by (metis nat_0_le)
  from assms(3) have "int (a + b * d) \<le> int L" unfolding a b by simp
  then have "a + b * d \<le> L" by (simp only: of_nat_le_iff)
  then show ?thesis unfolding a b by simp
qed

lemma np_fromfile_full:
  assumes "0 \<le> off" "0 \<le> cnt" "0 < d" "off + cnt * int d \<le> int (length file)"
  shows "np_fromfile file d cnt off = Inr (take (nat cnt * d) (drop (nat off) file))"
proof -
  have "nat cnt * d \<le> length file - nat off"
    using assms(1,2,4) by (rule nat_fit)
  then have "nat cnt \<le> (length file - nat off) div d"
    using assms(3) by (simp add: less_eq_div_iff_mult_less_eq)
  then show ?thesis using assms
    by (simp add: np_fromfile_def Let_def min_def)
qed

lemma np_reshape_plane:
  assumes "0 \<le> Y" "0 \<le> X" "0 < d" "length buf = nat (Y * X) * d"
  shows "np_reshape d buf [Y, X] = Inr \<lparr>arr_shape = [Y, X], arr_itemsize = d, arr_data = buf\<rparr>"
  using assms by (simp add: np_reshape_def Let_def)

text \<open>The array read of plane \<open>n\<close>, for any \<open>n\<close> below the number of planes: it
  fails when the plane would start before the file does, and otherwise takes the
  plane from where it starts.\<close>

lemma get_item_np_at:
  assumes d: "dims self = [C, Z, T, M, Y, X]"
    and n: "n < C * Z * T * M"
    and yx: "0 \<le> Y" "0 \<le> X" and dt: "0 < dtype self"
    and blk: "fst (offsets self) + C * Z * T * M * (Y * X * int (dtype self)) \<le> int (length file)"
  shows "get_item_np self file n =
           (if fst (offsets self) + Y * X * int (dtype self) * n < 0 then Inl OSError
            else Inr \<lparr>arr_shape = [Y, X], arr_itemsize = dtype self,
                arr_data = take (nat (Y * X) * dtype self)
                  (drop (nat (fst (offsets self) + Y * X * int (dtype self) * n)) file)\<rparr>)
         \<and> (0 \<le> fst (offsets self) + Y * X * int (dtype self) * n \<longrightarrow>
              nat (Y * X) * dtype self
                \<le> length file - nat (fst (offsets self) + Y * X * int (dtype self) * n))"
proof (cases "fst (offsets self) + Y * X * int (dtype self) * n < 0")
  case True
  then show ?thesis using n
    by (simp add: get_item_np_def d last2_def Let_def np_fromfile_def)
next
  case False
  let ?B = "Y * X * int (dtype self)"
  let ?off = "fst (offsets self) + ?B * n"
  have off0: "0 \<le> ?off" using False by simp
  have B: "0 \<le> ?B" using yx by simp
  have "?B * n + ?B \<le> ?B * (C * Z * T * M)" using n B by (rule plane_fits)
  with blk have fit: "?off + Y * X * int (dtype self) \<le> int (length file)"
    by (simp add: algebra_simps)
  have yx0: "0 \<le> Y * X" using yx by simp
  have ff: "np_fromfile file (dtype self) (Y * X) ?off
              = Inr (take (nat (Y * X) * dtype self) (drop (nat ?off) file))"
    using off0 yx0 dt fit by (rule np_fromfile_full)
  have room: "nat (Y * X) * dtype self \<le> length file - nat ?off"
    using off0 yx0 fit by (rule nat_fit)
  then have len: "length (take (nat (Y * X) * dtype self) (drop (nat ?off) file)) = nat (Y * X) * dtype self"
    by simp
  have "get_item_np self file n =
          Inr \<lparr>arr_shape = [Y, X], arr_itemsize = dtype self,
               arr_data = take (nat (Y * X) * dtype self) (drop (nat ?off) file)\<rparr>"
    using n ff np_reshape_plane [OF yx dt len]
    by (simp add: get_item_np_def d last2_def Let_def)
  with room False show ?thesis by simp
qed

lemma int_truediv_exact:
  assumes "0 < P" "0 \<le> B"
  shows "int_truediv (P * B) P = Inr B"
proof -
  have "\<not> P * B < 0" using assms by (simp add: mult_less_0_iff)
  then show ?thesis using assms by (simp add: int_truediv_def abs_mult)
qed

lemma Image_frombytes_L_ok:
  "0 \<le> Y \<Longrightarrow> 0 \<le> X \<Longrightarrow> nat (Y * X) \<le> length buf \<Longrightarrow>
     Image_frombytes_L (Y, X) buf
       = Inr \<lparr>im_mode = ''L'', im_size = (Y, X), im_data = take (nat (Y * X)) buf\<rparr>"
  by (simp add: Image_frombytes_L_def)

lemma get_item_sentinel:
  assumes d: "dims self = [C, Z, T, M, Y, X]" and ch: "channels self = C"
    and n: "0 \<le> n" "n < C * Z * T * M"
    and yx: "0 \<le> Y" "0 \<le> X"
    and off: "0 \<le> fst (offsets self)" and s: "snd (offsets self) = 0"
  shows "get_item self file n =
           Inr \<lparr>im_mode = ''L'', im_size = (Y, X), im_data = replicate (nat (Y * X)) 0\<rparr>"
proof -
  let ?P = "C * Z * T * M"
  have P: "1 \<le> ?P" using n by linarith
  have yx0: "0 \<le> Y * X" using yx by simp
  have "1 * (Y * X) \<le> ?P * (Y * X)" using P yx0 by (intro mult_right_mono) auto
  then have big: "Y * X \<le> ?P * Y * X" by (simp add: mult.assoc)
  have P0: "0 \<le> ?P" using P by simp
  have "0 \<le> ?P * (Y * X) * n"
    by (rule mult_nonneg_nonneg [OF mult_nonneg_nonneg [OF P0 yx0] n(1)])
  then have pos: "0 \<le> fst (offsets self) + ?P * Y * X * n"
    using off by (simp add: mult.assoc)
  have tk: "take (nat (Y * X)) (replicate (nat (?P * Y * X)) (0::byte)) = replicate (nat (Y * X)) 0"
    using big by (simp add: min_def)
  have le: "\<not> nat (?P * Y * X) < nat (Y * X)" using big by simp
  show ?thesis
    using n pos yx le tk
    by (simp add: get_item_def d ch s Let_def file_seek_def Image_frombytes_L_def)
qed

text \<open>The PIL read of plane \<open>n\<close> of a block of \<open>w\<close> bytes per pixel, for any \<open>n\<close>
  below the number of planes.\<close>

lemma get_item_at:
  assumes d: "dims self = [C, Z, T, M, Y, X]" and ch: "channels self = C"
    and n: "n < C * Z * T * M" and P: "0 < C * Z * T * M"
    and yx: "0 \<le> Y" "0 \<le> X" and dt: "0 < w"
    and s: "snd (offsets self) = C * Z * T * M * (Y * X * int w)" "snd (offsets self) \<noteq> 0"
    and blk: "fst (offsets self) + snd (offsets self) \<le> int (length file)"
  shows "get_item self file n =
           (if fst (offsets self) + Y * X * int w * n < 0 then Inl OSError
            else Inr \<lparr>im_mode = ''L'', im_size = (Y, X),
                im_data = take (nat (Y * X))
                  (drop (nat (fst (offsets self) + Y * X * int w * n)) file)\<rparr>)
         \<and> (0 \<le> fst (offsets self) + Y * X * int w * n \<longrightarrow>
              nat (Y * X) \<le> length file - nat (fst (offsets self) + Y * X * int w * n))"
proof -
  let ?P = "C * Z * T * M"
  let ?B = "Y * X * int w"
  let ?pos = "fst (offsets self) + ?B * n"
  have yx0: "0 \<le> Y * X" using yx by simp
  have B: "0 \<le> ?B" using yx by simp
  have il: "int_truediv (snd (offsets self)) ?P = Inr ?B"
    unfolding s(1) using P B by (rule int_truediv_exact)
  show ?thesis
  proof (cases "?pos < 0")
    case True
    then show ?thesis using n s(2)
      by (simp add: get_item_def d ch Let_def il file_seek_def)
  next
    case False
    then have pos0: "0 \<le> ?pos" by simp
    have "Y * X * 1 \<le> Y * X * int w" using yx0 dt by (intro mult_left_mono) auto
    then have small: "Y * X \<le> ?B" by simp
    have "?B * n + ?B \<le> ?B * ?P" using n B by (rule plane_fits)
    with blk s(1) have fit: "?pos + ?B * int 1 \<le> int (length file)"
      by (simp add: algebra_simps)
    have "nat ?B * 1 \<le> length file - nat ?pos"
      using pos0 B fit by (rule nat_fit)
    then have room: "nat ?B \<le> length file - nat ?pos" by simp
    have rd: "file_read file (nat ?pos) ?B = Inr (take (nat ?B) (drop (nat ?pos) file))"
      using B by (simp add: file_read_def)
    have len: "length (take (nat ?B) (drop (nat ?pos) file)) = nat ?B"
      using room by simp
    have tk: "take (nat (Y * X)) (take (nat ?B) (drop (nat ?pos) file))
                = take (nat (Y * X)) (drop (nat ?pos) file)"
      using small by (simp add: min_def)
    have le: "\<not> nat ?B < nat (Y * X)" using small by simp
    have seek: "file_seek (fst (offsets self) + ?B * n) = Inr (nat ?pos)"
      using pos0 by (simp add: file_seek_def)
    have fb: "Image_frombytes_L (Y, X) (take (nat ?B) (drop (nat ?pos) file))
                = Inr \<lparr>im_mode = ''L'', im_size = (Y, X),
                       im_data = take (nat (Y * X)) (drop (nat ?pos) file)\<rparr>"
      using Image_frombytes_L_ok [OF yx, of "take (nat ?B) (drop (nat ?pos) file)"] le
      unfolding len tk by simp
    have "get_item self file n =
            Inr \<lparr>im_mode = ''L'', im_size = (Y, X),
                 im_data = take (nat (Y * X)) (drop (nat ?pos) file)\<rparr>"
      using n s(2)
      by (simp add: get_item_def d ch Let_def il seek rd fb)
    moreover have "nat (Y * X) \<le> length file - nat ?pos" using room le by linarith
    ultimately show ?thesis using False by simp
  qed
qed

text \<open>\<open>get_frame\<close> on coordinates within bounds, over a block that is there to read
  (or, on the PIL path, lost to truncation): a plane of \<open>height * width\<close> elements.\<close>

lemma get_frame_in_range:
  assumes len: "length (dims self) = 6" and con: "consistent self"
    and z: "0 \<le> z" "z < nz self" and t: "0 \<le> t" "t < nt self"
    and c: "0 \<le> c" "c < channels self" and m: "0 \<le> m" "m < dims self ! 3"
    and data: "(\<not> return_as_np \<and> snd (offsets self) = 0) \<or> block_present self file"
  shows "\<exists>f. get_frame self file z t c m return_as_np = Inr f
             \<and> n_elements f = nat (dims self ! 4 * dims self ! 5)"
proof -
  obtain C Z T M Y X where d: "dims self = [C, Z, T, M, Y, X]"
    using list6 [OF len] by blast
  have ch: "channels self = C" and nz: "nz self = Z" and nt: "nt self = T"
    and yx: "0 \<le> Y" "0 \<le> X" and dt: "0 < dtype self" and off: "0 \<le> fst (offsets self)"
    using con by (simp_all add: consistent_def d)
  have M: "dims self ! 3 = M" by (simp add: d)
  have pos: "0 \<le> C" "0 \<le> Z" "0 \<le> T" using c z t ch nz nt by auto
  let ?n = "item_index self z t c m"
  have n_lt: "?n < C * Z * T * M"
    unfolding item_index_def ch nz nt
    using z(2) t(2) c(2) m(2) pos unfolding ch nz nt M by (intro item_index_upper) auto
  have n_ge: "0 \<le> ?n"
    unfolding item_index_def ch nz nt using pos z t c m by simp
  have gf: "get_frame self file z t c m return_as_np =
           (if return_as_np
            then map_sum id Array (get_item_np self file ?n)
            else map_sum id Image (get_item self file ?n))"
    using z(2) t(2) c(2) m(2) pos len unfolding ch[symmetric] nz[symmetric] nt[symmetric]
    by (intro get_frame_passes_checks) auto
  have yx0: "0 \<le> Y * X" using yx by simp
  have "0 \<le> Y * X * int (dtype self) * ?n"
    using yx0 n_ge by simp
  then have start: "0 \<le> fst (offsets self) + Y * X * int (dtype self) * ?n"
    using off by linarith
  then have start': "\<not> fst (offsets self) + Y * X * int (dtype self) * ?n < 0"
    by simp
  show ?thesis
  proof (cases "snd (offsets self) = 0 \<and> \<not> return_as_np")
    case True
    then have s0: "snd (offsets self) = 0" and np: "\<not> return_as_np" by simp_all
    show ?thesis
      using get_item_sentinel [OF d ch n_ge n_lt yx off s0] gf yx0 np
      by (simp add: d)
  next
    case False
    with data have bp: "block_present self file" by auto
    have s: "snd (offsets self) = C * Z * T * M * (Y * X * int (dtype self))"
      using bp by (simp add: block_present_def d algebra_simps)
    have blk: "fst (offsets self) + snd (offsets self) \<le> int (length file)"
      using bp by (simp add: block_present_def)
    have P: "0 < C * Z * T * M" using n_ge n_lt by linarith
    show ?thesis
    proof (cases return_as_np)
      case True
      have "nat (Y * X) * dtype self div dtype self = nat (Y * X)" using dt by simp
      then show ?thesis
        using get_item_np_at [OF d n_lt yx dt blk [unfolded s]] gf True start start'
        by (simp add: d)
    next
      case np: False
      with False have nz0: "snd (offsets self) \<noteq> 0" by simp
      show ?thesis
        using get_item_at [OF d ch n_lt P yx dt s nz0 blk] gf np start start'
        by (simp add: d)
    qed
  qed
qed

lemma get_frame_out_of_range:
  assumes len: "length (dims self) = 6"
  shows "(nz self \<le> z \<longrightarrow> get_frame self file z t c m np
             = Inl (ValueError ''Requested Z frame doesn't exist.''))
     \<and> (z < nz self \<and> nt self \<le> t \<longrightarrow> get_frame self file z t c m np
             = Inl (ValueError ''Requested T frame doesn't exist.''))
     \<and> (z < nz self \<and> t < nt self \<and> channels self \<le> c \<longrightarrow> get_frame self file z t c m np
             = Inl (ValueError ''Requested channel doesn't exist.''))
     \<and> (z < nz self \<and> t < nt self \<and> c < channels self \<and> dims self ! 3 \<le> m \<longrightarrow>
           get_frame self file z t c m np = Inl (ValueError ''Requested tile doesn't exist.''))"
  using len by (simp add: get_frame_def)


text \<open>What \<open>_get_item\<close> builds, whenever it returns: an image of mode \<^verbatim>\<open>"L"\<close> with one
  byte for each of its \<open>dims[4] * dims[5]\<close> pixels.\<close>

lemma get_item_mode:
  assumes "get_item self file n = Inr im"
  shows "im_mode im = ''L'' \<and> im_size im = (dims self ! 4, dims self ! 5)
     \<and> length (im_data im) = nat (dims self ! 4 * dims self ! 5)"
  using assms
  by (auto simp: get_item_def Let_def ebind_eq_Inr getitem_def Image_frombytes_L_def
      split: if_splits)

lemma get_frame_array:
  "get_frame self file z t c m True = Inr f \<Longrightarrow> \<exists>a. f = Array a \<and> arr_itemsize a = dtype self"
  by (auto simp: get_frame_def Let_def ebind_eq_Inr map_sum_eq_Inr
      dest: get_item_np_itemsize split: if_splits)

lemma get_frame_image:
  "get_frame self file z t c m False = Inr f \<Longrightarrow>
     \<exists>im. f = Image im \<and> im_mode im = ''L'' \<and> im_size im = (dims self ! 4, dims self ! 5)
        \<and> length (im_data im) = nat (dims self ! 4 * dims self ! 5)"
  by (auto simp: get_frame_def Let_def ebind_eq_Inr map_sum_eq_Inr
      dest: get_item_mode split: if_splits)

section \<open>Negative coordinates pass the bounds checks\<close>



lemma demo_image_init: "LifImage_init demo_info (8, 16) = Inr demo_image"
  by (simp add: LifImage_init_def demo_info_def demo_image_def int_truediv_def np_dtype_u_def)


section \<open>The stride-based plane read\<close>

text \<open>
  Claim C1 says that the single-plane read takes \<open>height * width\<close> elements from the file
  position \<open>block offset + byteOffset\<close>, with
  \<open>byteOffset = c * strideC + z * strideD + t * strideT + m * strideM\<close>.
  \<open>get_frame_np\<close> computes \<open>byteOffset\<close> so, but passes it to the file reader as it
  is, without the block offset \<open>offsets[0]\<close> that \<open>get_stack_np\<close> and \<open>_get_item_np\<close> add.
  In the demo image (block at byte 8, channel stride 4, z stride 8) the plane
  \<open>c = 1, z = 1\<close> has \<open>byteOffset = 12\<close>: the code returns the file's bytes 12 to 15,
  not the bytes 20 to 23 of the plane.
\<close>

theorem get_frame_np_ignores_block_offset:
  "get_frame_np demo_image demo_file 1 0 1 0
     = Inr \<lparr>arr_shape = [2, 2], arr_itemsize = 1, arr_data = [12, 13, 14, 15]\<rparr>
   \<and> fst (offsets demo_image) = 8
   \<and> take 4 (drop (8 + 12) demo_file) = [20, 21, 22, 23]"
  by (simp add: get_frame_np_def demo_image_def demo_file_def last2_def np_fromfile_def
      np_reshape_def Let_def)

section \<open>Bounds of the plane read\<close>

text \<open>
  Claim C2 asks of the single-plane read that a coordinate at or beyond its dimension
  size fails with the error that names the axis, and that a coordinate within bounds
  yields \<open>height * width\<close> elements. \<open>get_frame\<close> does both (lemmas
  \<open>get_frame_out_of_range\<close> and \<open>get_frame_in_range\<close>). \<open>get_frame_np\<close>, the other
  single-plane read, checks no coordinate: at \<open>z = nz = 2\<close> on the demo image it
  computes the offset 16 and returns a plane, where \<open>get_frame\<close> raises the ValueError
  of the z axis.
\<close>

theorem get_frame_np_no_bounds_check:
  "nz demo_image = 2
   \<and> get_frame_np demo_image demo_file 2 0 0 0
       = Inr \<lparr>arr_shape = [2, 2], arr_itemsize = 1, arr_data = [16, 17, 18, 19]\<rparr>
   \<and> get_frame demo_image demo_file 2 0 0 0 True
       = Inl (ValueError ''Requested Z frame doesn't exist.'')
   \<and> get_frame demo_image demo_file 2 0 0 0 False
       = Inl (ValueError ''Requested Z frame doesn't exist.'')"
  by (simp add: get_frame_np_def get_frame_def demo_image_def demo_file_def last2_def
      np_fromfile_def np_reshape_def Let_def)

section \<open>Blocks lost to truncation\<close>

text \<open>
  Claim C3 says that every plane read of a block of length 0 gives a plane of zeros
  without reading the file, and does not raise. \<open>_get_item\<close> does so; \<open>_get_item_np\<close>
  never looks at the block length and reads the file at the block offset. For the
  truncated image, whose plane of 256 bytes does not fit the 100 zero bytes that end the
  file, the array read raises where the PIL read gives the zero plane.
\<close>

theorem get_item_np_reads_truncated_block:
  "snd (offsets trunc_image) = 0
   \<and> get_frame trunc_image trunc_file 0 0 0 0 True = Inl (ValueError ''cannot reshape array'')
   \<and> get_item_np trunc_image trunc_file 0 = Inl (ValueError ''cannot reshape array'')
   \<and> get_frame trunc_image trunc_file 0 0 0 0 False
       = Inr (Image \<lparr>im_mode = ''L'', im_size = (16, 16), im_data = replicate 256 0\<rparr>)"
  by (simp add: get_frame_def get_item_np_def get_item_def trunc_image_def trunc_file_def
      last2_def np_fromfile_def np_reshape_def Image_frombytes_L_def file_seek_def Let_def)

section \<open>The element width\<close>

text \<open>
  Claim C6, as stated, fails: a resolution of 12 bits is not a multiple of 8, the
  builder records it as it is, and the image is constructed, with elements of one byte.
\<close>

theorem fractional_depth_counterexample:
  "\<not> (8::int) dvd 12
   \<and> image_data_dict demo_parsers '''' faint_item
       = Inr (demo_info\<lparr>ch_resolutions := [12, 12]\<rparr>)
   \<and> LifImage_init (demo_info\<lparr>ch_resolutions := [12, 12]\<rparr>) (8, 16)
       = Inr (demo_image\<lparr>ch_resolutions := [12, 12]\<rparr>)
   \<and> dtype (demo_image\<lparr>ch_resolutions := [12, 12]\<rparr>) = 1"
proof -
  have b: "image_data_dict demo_parsers '''' faint_item
             = Inr (demo_info\<lparr>ch_resolutions := [12, 12]\<rparr>)"
    by (simp add: image_data_dict_def dimension_entry_def find_dimension_def attr_def
        child_elems_def derive_scales_def py_truediv_def tile_position_def Let_def
        demo_parsers_def demo_int_def demo_uint64_def demo_float_def is_digit_def
        dec_value_def channel_desc_def dim_desc_def leaf_def faint_item_def demo_info_def)
  have i: "LifImage_init (demo_info\<lparr>ch_resolutions := [12, 12]\<rparr>) (8, 16)
             = Inr (demo_image\<lparr>ch_resolutions := [12, 12]\<rparr>)"
    by (simp add: LifImage_init_def demo_info_def demo_image_def int_truediv_def
        np_dtype_u_def)
  show ?thesis using b i by (simp add: demo_image_def)
qed

text \<open>
  Claim C6, amended. Construction makes no test of divisibility by 8. It takes the
  quotient of the first channel's resolution by 8, rounded down, and succeeds with that
  element width exactly when the quotient is 1, 2, 4 or 8; otherwise it fails with the
  TypeError of \<^verbatim>\<open>np.dtype\<close>. (The image has a channel and its z and t entries.)
\<close>

theorem LifImage_init_width:
  assumes "2 < length (dims info)" and "ch_resolutions info \<noteq> []"
  shows "LifImage_init info offs =
     (if ch_resolutions info ! 0 div 8 = 1 \<or> ch_resolutions info ! 0 div 8 = 2
         \<or> ch_resolutions info ! 0 div 8 = 4 \<or> ch_resolutions info ! 0 div 8 = 8
      then Inr \<lparr>dims = dims info, path = path info, name = name info,
            channels = channels info, ch_offsets = ch_offsets info,
            ch_resolutions = ch_resolutions info, scale = scale info,
            stride = stride info, tile_positions = tile_positions info,
            offsets = offs, nz = dims info ! 1, nt = dims info ! 2,
            dtype = nat (ch_resolutions info ! 0 div 8)\<rparr>
      else Inl TypeError)"
  using assms by (rule LifImage_init_cases)

theorem LifImage_init_width_witness:
  "2 < length (dims (demo_info\<lparr>ch_resolutions := [20, 8]\<rparr>))
   \<and> ch_resolutions (demo_info\<lparr>ch_resolutions := [20, 8]\<rparr>) \<noteq> []
   \<and> LifImage_init (demo_info\<lparr>ch_resolutions := [20, 8]\<rparr>) (8, 16)
       = Inr (demo_image\<lparr>ch_resolutions := [20, 8], dtype := 2\<rparr>)
   \<and> LifImage_init (demo_info\<lparr>ch_resolutions := [24, 8]\<rparr>) (8, 16) = Inl TypeError"
proof -
  have a: "2 < length (dims (demo_info\<lparr>ch_resolutions := [20, 8]\<rparr>))"
    "ch_resolutions (demo_info\<lparr>ch_resolutions := [20, 8]\<rparr>) \<noteq> []"
    by (simp_all add: demo_info_def)
  have b: "2 < length (dims (demo_info\<lparr>ch_resolutions := [24, 8]\<rparr>))"
    "ch_resolutions (demo_info\<lparr>ch_resolutions := [24, 8]\<rparr>) \<noteq> []"
    by (simp_all add: demo_info_def)
  show ?thesis
    using a LifImage_init_width [OF a, of "(8, 16)"] LifImage_init_width [OF b, of "(8, 16)"]
    by (simp add: demo_info_def demo_image_def)
qed

text \<open>
  Claim C10, as stated, fails: the default read of \<open>get_frame\<close> builds a PIL image of
  mode \<^verbatim>\<open>"L"\<close>, one byte per element, also for an image of 16 bits. Of the first
  plane of the 16-bit image, 8 bytes in the file, it returns 4 elements of one byte where
  the array read returns 4 elements of two bytes.
\<close>

theorem element_width_counterexample:
  "LifImage_init deep_info (8, 16) = Inr deep_image
   \<and> int_truediv (ch_resolutions deep_info ! 0) 8 = Inr 2
   \<and> get_frame deep_image demo_file 0 0 0 0 False
       = Inr (Image \<lparr>im_mode = ''L'', im_size = (2, 2), im_data = [8, 9, 10, 11]\<rparr>)
   \<and> get_frame deep_image demo_file 0 0 0 0 True
       = Inr (Array \<lparr>arr_shape = [2, 2], arr_itemsize = 2,
                     arr_data = [8, 9, 10, 11, 12, 13, 14, 15]\<rparr>)"
  by (simp add: LifImage_init_def deep_info_def deep_image_def demo_file_def get_frame_def
      get_item_def get_item_np_def last2_def int_truediv_def np_dtype_u_def np_fromfile_def
      np_reshape_def file_seek_def file_read_def Image_frombytes_L_def Let_def)

text \<open>
  Claim C10, amended. The element width of an image is the quotient of the first
  channel's resolution by 8 (rounded towards zero), whatever the other channels declare,
  and every array read (\<open>get_frame_np\<close>, \<open>_get_item_np\<close>, \<open>get_stack_np\<close>, and
  \<open>get_frame\<close> asked for an array) returns elements of that width for every channel.
  The PIL read (\<open>_get_item\<close>, and \<open>get_frame\<close> by default) returns an image of mode
  \<^verbatim>\<open>"L"\<close> with one byte for each of its \<open>dims[4] * dims[5]\<close> pixels, whatever the
  resolution.
\<close>

theorem element_width_first_channel:
  assumes "LifImage_init info offs = Inr self"
  shows "ch_resolutions info \<noteq> []
     \<and> int_truediv (ch_resolutions info ! 0) 8 = Inr (int (dtype self))
     \<and> (\<forall>a. get_frame_np self file z t c m = Inr a \<longrightarrow> arr_itemsize a = dtype self)
     \<and> (\<forall>a. get_item_np self file n = Inr a \<longrightarrow> arr_itemsize a = dtype self)
     \<and> (\<forall>a. get_stack_np self file m = Inr a \<longrightarrow> arr_itemsize a = dtype self)
     \<and> (\<forall>f. get_frame self file z t c m True = Inr f \<longrightarrow>
           (\<exists>a. f = Array a \<and> arr_itemsize a = dtype self))
     \<and> (\<forall>im. get_item self file n = Inr im \<longrightarrow>
           im_mode im = ''L'' \<and> im_size im = (dims self ! 4, dims self ! 5)
           \<and> length (im_data im) = nat (dims self ! 4 * dims self ! 5))
     \<and> (\<forall>f. get_frame self file z t c m False = Inr f \<longrightarrow>
           (\<exists>im. f = Image im \<and> im_mode im = ''L''
              \<and> im_size im = (dims self ! 4, dims self ! 5)
              \<and> length (im_data im) = nat (dims self ! 4 * dims self ! 5)))"
proof -
  have a: "ch_resolutions info \<noteq> []
     \<and> int_truediv (ch_resolutions info ! 0) 8 = Inr (int (dtype self))"
    using assms by (rule LifImage_init_dtype)
  have b: "\<forall>a. get_frame_np self file z t c m = Inr a \<longrightarrow> arr_itemsize a = dtype self"
    by (auto dest: get_frame_np_itemsize)
  have c: "\<forall>a. get_item_np self file n = Inr a \<longrightarrow> arr_itemsize a = dtype self"
    by (auto dest: get_item_np_itemsize)
  have d: "\<forall>a. get_stack_np self file m = Inr a \<longrightarrow> arr_itemsize a = dtype self"
    by (auto dest: get_stack_np_itemsize)
  have e: "\<forall>f. get_frame self file z t c m True = Inr f \<longrightarrow>
           (\<exists>a. f = Array a \<and> arr_itemsize a = dtype self)"
    by (auto dest: get_frame_array)
  have f: "\<forall>im. get_item self file n = Inr im \<longrightarrow>
           im_mode im = ''L'' \<and> im_size im = (dims self ! 4, dims self ! 5)
           \<and> length (im_data im) = nat (dims self ! 4 * dims self ! 5)"
    using get_item_mode [of self "file" n] by blast
  have g: "\<forall>f. get_frame self file z t c m False = Inr f \<longrightarrow>
           (\<exists>im. f = Image im \<and> im_mode im = ''L''
              \<and> im_size im = (dims self ! 4, dims self ! 5)
              \<and> length (im_data im) = nat (dims self ! 4 * dims self ! 5))"
    using get_frame_image [of self "file" z t c m] by blast
  from a b c d e f g show ?thesis by blast
qed

text \<open>The second channel of the 16-bit image: the array reads return elements of two
  bytes, the PIL reads one byte for each of the four pixels.\<close>

theorem element_width_first_channel_witness:
  "LifImage_init deep_info (8, 16) = Inr deep_image
   \<and> dtype deep_image = 2
   \<and> get_frame_np deep_image demo_file 0 0 1 0
       = Inr \<lparr>arr_shape = [2, 2], arr_itemsize = 2,
              arr_data = [8, 9, 10, 11, 12, 13, 14, 15]\<rparr>
   \<and> get_item_np deep_image demo_file 1
       = Inr \<lparr>arr_shape = [2, 2], arr_itemsize = 2,
              arr_data = [16, 17, 18, 19, 20, 21, 22, 23]\<rparr>
   \<and> get_stack_np deep_image demo_file 0
       = Inr \<lparr>arr_shape = [2, 1, 1, 2, 2], arr_itemsize = 2,
              arr_data = [8, 9, 10, 11, 12, 13, 14, 15, 16, 17, 18, 19, 20, 21, 22, 23]\<rparr>
   \<and> get_frame deep_image demo_file 0 0 1 0 True
       = Inr (Array \<lparr>arr_shape = [2, 2], arr_itemsize = 2,
              arr_data = [16, 17, 18, 19, 20, 21, 22, 23]\<rparr>)
   \<and> get_item deep_image demo_file 1
       = Inr \<lparr>im_mode = ''L'', im_size = (2, 2), im_data = [16, 17, 18, 19]\<rparr>
   \<and> get_frame deep_image demo_file 0 0 1 0 False
       = Inr (Image \<lparr>im_mode = ''L'', im_size = (2, 2), im_data = [16, 17, 18, 19]\<rparr>)"
proof -
  have i: "LifImage_init deep_info (8, 16) = Inr deep_image"
    by (simp add: LifImage_init_def deep_info_def deep_image_def int_truediv_def np_dtype_u_def)
  have g1: "get_frame_np deep_image demo_file 0 0 1 0
       = Inr \<lparr>arr_shape = [2, 2], arr_itemsize = 2,
              arr_data = [8, 9, 10, 11, 12, 13, 14, 15]\<rparr>"
    by (simp add: get_frame_np_def deep_image_def demo_file_def last2_def np_fromfile_def
        np_reshape_def Let_def)
  have g2: "get_item_np deep_image demo_file 1
       = Inr \<lparr>arr_shape = [2, 2], arr_itemsize = 2,
              arr_data = [16, 17, 18, 19, 20, 21, 22, 23]\<rparr>"
    by (simp add: get_item_np_def deep_image_def demo_file_def last2_def np_fromfile_def
        np_reshape_def Let_def)
  have g3: "get_stack_np deep_image demo_file 0
       = Inr \<lparr>arr_shape = [2, 1, 1, 2, 2], arr_itemsize = 2,
              arr_data = [8, 9, 10, 11, 12, 13, 14, 15, 16, 17, 18, 19, 20, 21, 22, 23]\<rparr>"
    by (simp add: get_stack_np_def deep_image_def demo_file_def np_fromfile_def
        np_reshape_def Let_def)
  have g4: "get_item deep_image demo_file 1
       = Inr \<lparr>im_mode = ''L'', im_size = (2, 2), im_data = [16, 17, 18, 19]\<rparr>"
    by (simp add: get_item_def deep_image_def demo_file_def int_truediv_def file_seek_def
        file_read_def Image_frombytes_L_def Let_def)
  have g5: "get_frame deep_image demo_file 0 0 1 0 True
       = Inr (Array \<lparr>arr_shape = [2, 2], arr_itemsize = 2,
              arr_data = [16, 17, 18, 19, 20, 21, 22, 23]\<rparr>)"
    using g2 by (simp add: get_frame_def deep_image_def Let_def)
  have g6: "get_frame deep_image demo_file 0 0 1 0 False
       = Inr (Image \<lparr>im_mode = ''L'', im_size = (2, 2), im_data = [16, 17, 18, 19]\<rparr>)"
    using g4 by (simp add: get_frame_def deep_image_def Let_def)
  show ?thesis
    using i g1 g2 g3 g4 g5 g6 element_width_first_channel [OF i, of demo_file 0 0 1 0 1]
    by (simp add: deep_image_def)
qed

section \<open>The descriptor builder\<close>

lemma emap_eq_Inr_Cons:
  "emap f (x # xs) = Inr ys \<longleftrightarrow> (\<exists>y ys'. f x = Inr y \<and> emap f xs = Inr ys' \<and> ys = y # ys')"
  by (auto simp: ebind_eq_Inr)

lemma emap_eq_Inr_Nil: "emap f [] = Inr ys \<longleftrightarrow> ys = []"
  by auto

lemma py_truediv_eq_Inr: "py_truediv a b = Inr q \<longleftrightarrow> b \<noteq> 0 \<and> q = a / b"
  by (auto simp: py_truediv_def)

lemmas demo_defs = demo_parsers_def demo_int_def demo_uint64_def demo_float_def is_digit_def
  dec_value_def channel_desc_def dim_desc_def leaf_def

lemmas builder_defs = image_data_dict_def dimension_entry_def find_dimension_def attr_def
  child_elems_def derive_scales_def py_truediv_def tile_position_def Let_def

lemma demo_item_info: "image_data_dict demo_parsers '''' demo_item = Inr demo_info"
  by (simp add: builder_defs demo_defs demo_item_def demo_info_def)

lemma demo_item_found:
  "recursive_image_find demo_parsers (Element ''LMSDataContainerHeader'' [] [demo_item]) ''''
     = Inr [demo_info]"
proof -
  have kids: "tree_children (Element ''LMSDataContainerHeader'' [] [demo_item]) = [demo_item]"
    by (simp add: tree_children_def child_elems_def demo_item_def leaf_def)
  have sub: "\<not> has_sub_children demo_item"
    by (simp add: has_sub_children_def child_elems_def demo_item_def leaf_def)
  have img: "is_image demo_item"
    by (simp add: is_image_def child_elems_def demo_item_def leaf_def)
  have nm: "attr demo_item ''Name'' = Inr ''img''"
    by (simp add: attr_def demo_item_def leaf_def)
  show ?thesis
    by (subst recursive_image_find.simps) (simp add: kids sub img nm demo_item_info)
qed

text \<open>
  Claim C7 says that a leaf image with exactly one channel is handled as a special case
  and never indexes the list of channel byte increments out of range. The builder
  seeds the stride list with \<^verbatim>\<open>ch_offsets[1]\<close> (the source marks the line
  \<^verbatim>\<open>FIXME: assumes at least 2 channels\<close>): for the leaf with one channel the index is out
  of range, the builder raises IndexError, and so does the walk over a document that
  holds this leaf.
\<close>

theorem single_channel_index_error:
  "length (findall [''Data'', ''Image'', ''ImageDescription'', ''Channels'',
                    ''ChannelDescription''] mono_item) = 1
   \<and> image_data_dict demo_parsers '''' mono_item = Inl IndexError
   \<and> recursive_image_find demo_parsers (Element ''LMSDataContainerHeader'' [] [mono_item]) ''''
       = Inl IndexError"
proof -
  have one: "length (findall [''Data'', ''Image'', ''ImageDescription'', ''Channels'',
                    ''ChannelDescription''] mono_item) = 1"
    by (simp add: child_elems_def mono_item_def demo_defs)
  have b: "image_data_dict demo_parsers '''' mono_item = Inl IndexError"
    by (simp add: builder_defs demo_defs mono_item_def getitem_def)
  have kids: "tree_children (Element ''LMSDataContainerHeader'' [] [mono_item]) = [mono_item]"
    by (simp add: tree_children_def child_elems_def mono_item_def leaf_def)
  have sub: "\<not> has_sub_children mono_item"
    by (simp add: has_sub_children_def child_elems_def mono_item_def leaf_def)
  have img: "is_image mono_item"
    by (simp add: is_image_def child_elems_def mono_item_def leaf_def)
  have nm: "attr mono_item ''Name'' = Inr ''mono''"
    by (simp add: attr_def mono_item_def leaf_def)
  have w: "recursive_image_find demo_parsers
             (Element ''LMSDataContainerHeader'' [] [mono_item]) '''' = Inl IndexError"
    by (subst recursive_image_find.simps) (simp add: kids sub img nm b)
  show ?thesis using one b w by simp
qed

text \<open>
  Claim C8. For every leaf image that the builder turns into a descriptor, with
  \<open>z\<close>, \<open>t\<close>, \<open>m\<close>, \<open>y\<close>, \<open>x\<close> the entries (element count, physical length) read or
  defaulted for the dimension ids 3, 4, 10, 2 and 1: the depth scale is
  \<open>count z / (length z * 10^6)\<close>, the time scale \<open>count t / length t\<close>, the tile scale the
  constant 1, and the height and width scales \<open>(count - 1) / (length * 10^6)\<close>. Python's
  floats are taken as exact rationals here.
\<close>

theorem derived_scales:
  assumes "image_data_dict ps pth item = Inr info"
  shows "\<exists>z t m y x.
           dimension_entry ps item ''3'' = Inr z \<and> dimension_entry ps item ''4'' = Inr t
         \<and> dimension_entry ps item ''10'' = Inr m \<and> dimension_entry ps item ''2'' = Inr y
         \<and> dimension_entry ps item ''1'' = Inr x
         \<and> dims info = [channels info, n_elems z, n_elems t, n_elems m, n_elems y, n_elems x]
         \<and> scale info =
             [1, of_int (n_elems z) / (phys_len z * 10 ^ 6),
              of_int (n_elems t) / phys_len t,
              1,
              (of_int (n_elems y) - 1) / (phys_len y * 10 ^ 6),
              (of_int (n_elems x) - 1) / (phys_len x * 10 ^ 6)]"
  using assms
  by (auto simp: image_data_dict_def Let_def ebind_eq_Inr emap_eq_Inr_Cons emap_eq_Inr_Nil
      derive_scales_def py_truediv_eq_Inr)

text \<open>A depth count of 10 over a physical length of \<open>9 * 10^-6\<close> gives the depth scale
  \<open>10 / 9\<close>.\<close>

theorem derived_scales_witness:
  "\<exists>info z. image_data_dict demo_parsers '''' depth_item = Inr info
     \<and> dimension_entry demo_parsers depth_item ''3'' = Inr z
     \<and> n_elems z = 10 \<and> phys_len z = 9 / 10 ^ 6
     \<and> scale info ! 1 = 10 / 9 \<and> scale info ! 3 = 1"
proof -
  obtain info where i: "image_data_dict demo_parsers '''' depth_item = Inr info"
    by (simp add: builder_defs demo_defs depth_item_def)
  have z: "dimension_entry demo_parsers depth_item ''3''
             = Inr \<lparr>n_elems = 10, bytes_inc = U64 8, phys_len = 9 / 10 ^ 6\<rparr>"
    by (simp add: builder_defs demo_defs depth_item_def)
  from derived_scales [OF i] z
  have "scale info ! 1 = 10 / 9 \<and> scale info ! 3 = 1" by auto
  with i z show ?thesis by simp
qed

section \<open>Facts on the scan\<close>

lemmas io_defs = io_bind_def io_return_def handle_read_def handle_seek_def handle_tell_def
  read_int_def read_long_def check_magic_def check_mem_def check_truncated_def get_len_def
  append_offset_def le_value_def Let_def

lemma no_images_a: "recursive_image_find ps (Element ''a'' [] []) '''' = Inr []"
  by (subst recursive_image_find.simps) (simp add: tree_children_def child_elems_def)

lemma tiny_open: "LifFile_init doc_parsers tiny_file = Inl OSError"
proof -
  have hdr: "io_bind get_len (\<lambda>f_len.
     io_bind (check_magic False) (\<lambda>_.
     io_bind (handle_seek 8 0) (\<lambda>_.
     io_bind (check_mem False) (\<lambda>_.
     io_bind read_int (\<lambda>header_len.
     io_bind (handle_read (header_len * 2)) (\<lambda>raw.
     Pair (fromstring doc_parsers raw))))))) (fresh tiny_file)
     = (Inr (Element ''a'' [] []), (fresh tiny_file)\<lparr>pos := 21\<rparr>)"
    by (simp add: io_defs fresh_def tiny_file_def header_a_def doc_parsers_def)
  have step: "scan_step ((fresh tiny_file)\<lparr>pos := 21\<rparr>)
                = (Inl OSError, (fresh tiny_file)\<lparr>pos := 30\<rparr>)"
    by (simp add: scan_step_def scan_block_def io_defs fresh_def tiny_file_def header_a_def)
  have loop: "scan_loop ((fresh tiny_file)\<lparr>pos := 21\<rparr>)
                = (Inl OSError, (fresh tiny_file)\<lparr>pos := 30\<rparr>)"
    by (subst scan_loop.simps) (simp add: step, simp add: fresh_def tiny_file_def header_a_def)
  have "open_scan doc_parsers (fresh tiny_file) = (Inl OSError, (fresh tiny_file)\<lparr>pos := 30\<rparr>)"
    using hdr loop by (auto simp: open_scan_def io_bind_def split: prod.splits sum.splits)
  then show ?thesis by (simp add: LifFile_init_def)
qed

lemma keeps_flagged: "keeps m \<Longrightarrow> m s = (r, s') \<Longrightarrow> flagged s \<Longrightarrow> flagged s'"
  by (auto simp: keeps_def flagged_def)

lemma scan_step_flagged:
  assumes "scan_step st = (r, st')" and "flagged st"
  shows "flagged st'"
proof (cases "scan_block st")
  case (Pair a st1)
  have f1: "flagged st1" using keeps_flagged [OF keeps_scan_block Pair assms(2)] .
  obtain b st2 where ct: "check_truncated st1 = (b, st2)" by (cases "check_truncated st1")
  have f2: "flagged st2" using keeps_flagged [OF keeps_check_truncated ct f1] .
  have end_ok: "flagged (snd (handle_seek 0 2
                 (st2\<lparr>truncation_begin := Some (pos st2),
                      warned := warned st2 @ [truncation_warning],
                      truncated := True\<rparr>)))"
    by (simp add: handle_seek_def Let_def flagged_def)
  show ?thesis
    using assms(1) Pair ct f1 f2 end_ok
    by (auto simp: scan_step_def split: sum.splits error.splits bool.splits)
qed

lemma scan_loop_flagged: "scan_loop st = (r, st') \<Longrightarrow> flagged st \<Longrightarrow> flagged st'"
proof (induction st arbitrary: r st' rule: scan_loop.induct)
  case (1 st)
  show ?case
  proof (cases "pos st < length (content st)")
    case False
    with "1.prems" show ?thesis by (simp add: scan_loop.simps [of st])
  next
    case True
    obtain a st1 where s: "scan_step st = (a, st1)" by (cases "scan_step st")
    have f1: "flagged st1" using scan_step_flagged [OF s "1.prems"(2)] .
    show ?thesis
    proof (cases a)
      case (Inl e)
      with "1.prems"(1) True s have "st' = st1" by (simp add: scan_loop.simps [of st])
      with f1 show ?thesis by simp
    next
      case (Inr u)
      with "1.prems"(1) True s have "scan_loop st1 = (r, st')"
        by (simp add: scan_loop.simps [of st])
      then show ?thesis using "1.IH" [OF True s [symmetric] Inr _ f1] by simp
    qed
  qed
qed

lemma io_bind_cases:
  assumes "io_bind m f s = (r, s'')"
  obtains (fail) e where "m s = (Inl e, s'')" "r = Inl e"
        | (ok) x s' where "m s = (Inr x, s')" "f x s' = (r, s'')"
  using assms by (auto simp: io_bind_def split: prod.splits sum.splits)

lemma keeps_get_len: "keeps get_len"
  unfolding get_len_def by (intro keeps_bind keeps_tell keeps_seek keeps_return)

lemma open_scan_flagged:
  assumes "open_scan ps (fresh file) = (r, st)"
  shows "flagged st"
proof -
  let ?hdr = "io_bind get_len (\<lambda>f_len.
     io_bind (check_magic False) (\<lambda>_.
     io_bind (handle_seek 8 0) (\<lambda>_.
     io_bind (check_mem False) (\<lambda>_.
     io_bind read_int (\<lambda>header_len.
     io_bind (handle_read (header_len * 2)) (\<lambda>raw.
     Pair (fromstring ps raw)))))))"
  have k: "keeps ?hdr"
    by (intro keeps_bind keeps_get_len keeps_check_magic keeps_seek keeps_check_mem
        keeps_read_int keeps_read) (simp add: keeps_def)
  have eq: "open_scan ps = io_bind ?hdr (\<lambda>xml. io_bind scan_loop (\<lambda>_. io_return xml))"
    by (auto simp: open_scan_def io_bind_def fun_eq_iff split: prod.splits sum.splits)
  have f0: "flagged (fresh file)" by (simp add: flagged_def fresh_def)
  from assms [unfolded eq] show ?thesis
  proof (cases rule: io_bind_cases)
    case (fail e)
    then show ?thesis using keeps_flagged [OF k _ f0] by simp
  next
    case (ok xml s1)
    have f1: "flagged s1" using keeps_flagged [OF k ok(1) f0] .
    from ok(2) show ?thesis
    proof (cases rule: io_bind_cases)
      case (fail e)
      then show ?thesis using scan_loop_flagged f1 by blast
    next
      case (ok u s2)
      then show ?thesis using scan_loop_flagged f1 by (auto simp: io_return_def)
    qed
  qed
qed

lemma replicate4: "replicate 4 x = [x, x, x, x]"
  by (simp add: numeral_eq_Suc)

lemma header_a_read:
  "io_bind get_len (\<lambda>f_len.
     io_bind (check_magic False) (\<lambda>_.
     io_bind (handle_seek 8 0) (\<lambda>_.
     io_bind (check_mem False) (\<lambda>_.
     io_bind read_int (\<lambda>header_len.
     handle_read (header_len * 2))))))
     \<lparr>content = header_a @ rest, pos = 0, found = [], truncated = False,
      truncation_begin = None, warned = []\<rparr>
   = (Inr [0x3c, 0, 0x61, 0, 0x2f, 0, 0x3e, 0],
      \<lparr>content = header_a @ rest, pos = 21, found = [], truncated = False,
       truncation_begin = None, warned = []\<rparr>)"
  by (simp add: io_defs header_a_def)

lemma open_scan_split:
  "open_scan ps s =
     (case io_bind get_len (\<lambda>f_len.
           io_bind (check_magic False) (\<lambda>_.
           io_bind (handle_seek 8 0) (\<lambda>_.
           io_bind (check_mem False) (\<lambda>_.
           io_bind read_int (\<lambda>header_len.
           handle_read (header_len * 2)))))) s of
        (Inl e, s1) \<Rightarrow> (Inl e, s1)
      | (Inr raw, s1) \<Rightarrow>
          (case fromstring ps raw of
             Inl e \<Rightarrow> (Inl e, s1)
           | Inr xml \<Rightarrow>
               (case scan_loop s1 of
                  (Inl e, s2) \<Rightarrow> (Inl e, s2)
                | (Inr u, s2) \<Rightarrow> (Inr xml, s2))))"
  by (auto simp: open_scan_def io_bind_def io_return_def split: prod.splits sum.splits)

lemma surplus_scan:
  "open_scan doc_parsers (fresh surplus_file)
     = (Inr (Element ''a'' [] []),
        \<lparr>content = surplus_file, pos = 143, found = [(41, 2)], truncated = True,
         truncation_begin = Some 43, warned = [truncation_warning]\<rparr>)"
proof -
  let ?s1 = "\<lparr>content = surplus_file, pos = 21, found = [], truncated = False,
              truncation_begin = None, warned = []\<rparr>"
  let ?s2 = "\<lparr>content = surplus_file, pos = 43, found = [(41, 2)], truncated = False,
              truncation_begin = None, warned = []\<rparr>"
  let ?s3 = "\<lparr>content = surplus_file, pos = 143, found = [(41, 2)], truncated = True,
              truncation_begin = Some 43, warned = [truncation_warning]\<rparr>"
  have step1: "scan_step ?s1 = (Inr (), ?s2)"
    by (simp add: scan_step_def scan_block_def io_defs surplus_file_def header_a_def
        one_block_def)
  have step2: "scan_step ?s2 = (Inr (), ?s3)"
    by (simp add: scan_step_def scan_block_def io_defs surplus_file_def header_a_def
        one_block_def replicate4)
  have len: "length surplus_file = 143"
    by (simp add: surplus_file_def header_a_def one_block_def)
  have l3: "scan_loop ?s3 = (Inr (), ?s3)"
    by (subst scan_loop.simps) (simp add: len)
  have l2: "scan_loop ?s2 = (Inr (), ?s3)"
    by (subst scan_loop.simps) (simp add: len step2 l3)
  have l1: "scan_loop ?s1 = (Inr (), ?s3)"
    by (subst scan_loop.simps) (simp add: len step1 l2)
  have hdr: "fresh surplus_file = \<lparr>content = header_a @ (one_block @ replicate 100 0), pos = 0,
       found = [], truncated = False, truncation_begin = None, warned = []\<rparr>"
    by (simp add: fresh_def surplus_file_def)
  have s1: "\<lparr>content = header_a @ (one_block @ replicate 100 0), pos = 21,
       found = [], truncated = False, truncation_begin = None, warned = []\<rparr> = ?s1"
    by (simp add: surplus_file_def)
  show ?thesis
    unfolding open_scan_split hdr header_a_read s1
    by (simp add: doc_parsers_def l1)
qed

lemma lowf_bind:
  assumes "lowf m c" and "adv m a" and "\<And>x. lowf (f x) d" and "b \<le> c" and "b \<le> a + d"
  shows "lowf (io_bind m f) b"
  unfolding lowf_def
proof (intro allI impI)
  fix s e s''
  assume "io_bind m f s = (Inl e, s'')"
  then show "int (pos s) + b \<le> int (pos s'')"
  proof (cases rule: io_bind_cases)
    case (fail e')
    with assms(1,4) show ?thesis by (fastforce simp: lowf_def)
  next
    case (ok x s')
    from assms(2) ok(1) have "int (pos s) + a \<le> int (pos s')" by (auto simp: adv_def)
    moreover from assms(3) [of x] ok(2) have "int (pos s') + d \<le> int (pos s'')"
      by (auto simp: lowf_def)
    ultimately show ?thesis using assms(5) by simp
  qed
qed

lemma lowf_weaken: "lowf m a \<Longrightarrow> b \<le> a \<Longrightarrow> lowf m b"
  by (fastforce simp: lowf_def)

lemma lowf_return: "lowf (io_return x) a"
  by (simp add: lowf_def io_return_def)

lemma lowf_raise: "lowf (Pair (Inl e)) 0"
  by (simp add: lowf_def)

lemma lowf_read: "lowf (handle_read n) a"
  by (simp add: lowf_def handle_read_def Let_def)

lemma lowf_tell: "lowf handle_tell a"
  by (simp add: lowf_def handle_tell_def)

lemma lowf_append: "lowf (append_offset b) a"
  by (simp add: lowf_def append_offset_def)

lemma lowf_seek: "lowf (handle_seek off w) 0"
  by (auto simp: lowf_def handle_seek_def Let_def split: if_splits)

lemma lowf_read_int: "lowf read_int 0"
  by (auto simp: lowf_def read_int_def io_bind_def handle_read_def io_return_def Let_def
      split: if_splits)

lemma lowf_read_long: "lowf read_long 0"
  by (auto simp: lowf_def read_long_def io_bind_def handle_read_def io_return_def Let_def
      split: if_splits)

lemma lowf_check_mem: "lowf (check_mem b) 0"
  by (auto simp: lowf_def check_mem_def io_bind_def handle_read_def io_return_def handle_tell_def
      Let_def split: if_splits)

lemma lowf_check_magic: "lowf (check_magic b) 0"
  by (auto simp: lowf_def check_magic_def io_bind_def handle_read_def io_return_def
      handle_tell_def Let_def split: if_splits)

lemma lowf_scan_block: "lowf scan_block 0"
proof -
  have app: "adv (if block_len > 0
                  then io_bind handle_tell (\<lambda>p. append_offset (int p + int d, int block_len))
                  else io_return ()) 0" for block_len d :: nat
  proof -
    have "adv (io_bind handle_tell (\<lambda>p. append_offset (int p + int d, int block_len))) (0 + 0)"
      by (intro adv_bind adv_tell adv_append)
    then show ?thesis using adv_return [of "()"] by (cases "block_len > 0") simp_all
  qed
  have app_f: "lowf (if block_len > 0
                  then io_bind handle_tell (\<lambda>p. append_offset (int p + int d, int block_len))
                  else io_return ()) 0" for block_len d :: nat
  proof -
    have "lowf (io_bind handle_tell (\<lambda>p. append_offset (int p + int d, int block_len))) 0"
      by (rule lowf_bind [OF lowf_tell adv_tell lowf_append, where c = 0 and d = 0]) simp_all
    then show ?thesis using lowf_return [of "()" 0] by (cases "block_len > 0") simp_all
  qed
  have t1: "lowf (io_bind (if block_len > 0
                  then io_bind handle_tell (\<lambda>p. append_offset (int p + int d, int block_len))
                  else io_return ()) (\<lambda>_. handle_seek (int d + int block_len) 1)) 0"
    for block_len d :: nat
    by (rule lowf_bind [OF app_f app lowf_seek]) simp_all
  have t2: "lowf (io_bind read_int (\<lambda>n.
     (let description_len = n * 2
      in io_bind (if block_len > 0
                  then io_bind handle_tell (\<lambda>p.
                       append_offset (int p + int description_len, int block_len))
                  else io_return ()) (\<lambda>_.
         handle_seek (int description_len + int block_len) 1)))) 0" for block_len :: nat
    unfolding Let_def by (rule lowf_bind [OF lowf_read_int adv_read_int t1]) simp_all
  have long_a: "adv (io_bind (handle_seek (- 5) 1) (\<lambda>_.
                   io_bind read_long (\<lambda>block_len.
                   io_bind (check_mem False) (\<lambda>_.
                   io_return block_len)))) (- 5 + (8 + (0 + 0)))"
    by (intro adv_bind adv_seek_cur adv_read_long adv_check_mem adv_return)
  have len_a: "adv (if \<not> is_mem
              then io_bind (handle_seek (- 5) 1) (\<lambda>_.
                   io_bind read_long (\<lambda>block_len.
                   io_bind (check_mem False) (\<lambda>_.
                   io_return block_len)))
              else io_return block_len) 0" for is_mem and block_len :: nat
    using adv_weaken [OF long_a, of 0] adv_return [of block_len] by (cases is_mem) simp_all
  have l3: "lowf (io_bind (check_mem False) (\<lambda>_. io_return bl)) 0" for bl :: nat
    by (rule lowf_bind [OF lowf_check_mem adv_check_mem lowf_return, where d = 0]) simp_all
  have l2: "lowf (io_bind read_long (\<lambda>block_len.
                   io_bind (check_mem False) (\<lambda>_. io_return block_len))) 0"
    by (rule lowf_bind [OF lowf_read_long adv_read_long l3]) simp_all
  have long_f: "lowf (io_bind (handle_seek (- 5) 1) (\<lambda>_.
                   io_bind read_long (\<lambda>block_len.
                   io_bind (check_mem False) (\<lambda>_.
                   io_return block_len)))) (- 5)"
    by (rule lowf_bind [OF lowf_seek adv_seek_cur l2]) simp_all
  have len_f: "lowf (if \<not> is_mem
              then io_bind (handle_seek (- 5) 1) (\<lambda>_.
                   io_bind read_long (\<lambda>block_len.
                   io_bind (check_mem False) (\<lambda>_.
                   io_return block_len)))
              else io_return block_len) (- 5)" for is_mem and block_len :: nat
    using long_f lowf_return [of block_len "- 5"] by (cases is_mem) simp_all
  show ?thesis
    unfolding scan_block_def
    apply (rule lowf_bind [OF lowf_check_magic adv_check_magic, where d = 0])
      apply (rule lowf_bind [OF lowf_seek adv_seek_cur, where d = "- 1"])
        apply (rule lowf_bind [OF lowf_check_mem adv_check_mem, where d = "- 1"])
          apply (rule lowf_bind [OF lowf_read_int adv_read_int, where d = "- 5"])
            apply (rule lowf_bind [OF lowf_check_mem adv_check_mem, where d = "- 5"])
              apply (rule lowf_bind [OF len_f len_a t2])
               apply simp_all
    done
qed

lemma io_bind_Inr: "m s = (Inr x, s') \<Longrightarrow> io_bind m f s = f x s'"
  by (simp add: io_bind_def)

lemma io_bind_Inl: "m s = (Inl e, s') \<Longrightarrow> io_bind m f s = (Inl e, s')"
  by (simp add: io_bind_def)

lemma check_truncated_zero:
  assumes "4 \<le> pos s" and "take 100 (drop (pos s - 4) (content s)) = replicate 100 0"
  shows "check_truncated s = (Inr True, s\<lparr>pos := pos s - 4\<rparr>)"
proof -
  have len: "length (take 100 (drop (pos s - 4) (content s))) = 100"
    unfolding assms(2) by simp
  have sk: "handle_seek (- 4) 1 s = (Inr (), s\<lparr>pos := pos s - 4\<rparr>)"
    using assms(1) by (simp add: handle_seek_def Let_def nat_diff_distrib')
  have rd: "handle_read 100 (s\<lparr>pos := pos s - 4\<rparr>)
              = (Inr (replicate 100 0), s\<lparr>pos := pos s - 4 + 100\<rparr>)"
    using assms(2) len by (simp add: handle_read_def Let_def)
  have bk: "handle_seek (- 100) 1 (s\<lparr>pos := pos s - 4 + 100\<rparr>)
              = (Inr (), s\<lparr>pos := pos s - 4\<rparr>)"
    by (simp add: handle_seek_def Let_def)
  show ?thesis
    by (simp add: check_truncated_def io_bind_def sk rd bk io_return_def)
qed

lemma check_truncated_nonzero:
  assumes "4 \<le> pos s" and "take 100 (drop (pos s - 4) (content s)) \<noteq> replicate 100 0"
    and "100 \<le> length (content s)"
  shows "\<exists>s'. check_truncated s = (Inr False, s')"
proof -
  let ?bs = "take 100 (drop (pos s - 4) (content s))"
  have sk: "handle_seek (- 4) 1 s = (Inr (), s\<lparr>pos := pos s - 4\<rparr>)"
    using assms(1) by (simp add: handle_seek_def Let_def nat_diff_distrib')
  have rd: "handle_read 100 (s\<lparr>pos := pos s - 4\<rparr>)
              = (Inr ?bs, s\<lparr>pos := pos s - 4 + length ?bs\<rparr>)"
    by (simp add: handle_read_def Let_def)
  have "100 \<le> pos s - 4 + length ?bs"
    using assms(3) by (simp add: min_def) arith
  then have bk: "\<exists>s'. handle_seek (- 100) 1 (s\<lparr>pos := pos s - 4 + length ?bs\<rparr>) = (Inr (), s')"
    by (simp add: handle_seek_def Let_def)
  then obtain s' where "handle_seek (- 100) 1 (s\<lparr>pos := pos s - 4 + length ?bs\<rparr>) = (Inr (), s')"
    by blast
  then show ?thesis
    using assms(2) by (simp add: check_truncated_def io_bind_def sk rd io_return_def)
qed

text \<open>
  In a file of at least 100 bytes the handler of a failed assertion does what is
  expected of it: from a block that starts at position 4 or later, the scan ends in the
  truncated state when the 100 bytes from 4 bytes before the failure are zero, and
  raises the assertion's ValueError when they are not.
\<close>

lemma scan_failure_handled:
  assumes fail: "scan_block st = (Inl (ValueError msg), st1)"
    and loop: "pos st < length (content st)" and hdr: "4 \<le> pos st"
    and big: "100 \<le> length (content st)" and off: "length (content st) < 2 ^ 63"
  shows "(take 100 (drop (pos st1 - 4) (content st)) = replicate 100 0 \<longrightarrow>
            scan_loop st
              = (Inr (), st1\<lparr>pos := length (content st),
                             truncation_begin := Some (pos st1 - 4),
                             warned := warned st1 @ [truncation_warning],
                             truncated := True\<rparr>))
       \<and> (take 100 (drop (pos st1 - 4) (content st)) \<noteq> replicate 100 0 \<longrightarrow>
            (\<exists>st2. scan_loop st = (Inl (ValueError msg), st2)))"
proof -
  have c1: "content st1 = content st"
    using keeps_scan_block fail by (simp add: keeps_def)
  have p1: "4 \<le> pos st1"
    using lowf_scan_block fail hdr by (fastforce simp: lowf_def)
  show ?thesis
  proof (intro conjI impI)
    assume z: "take 100 (drop (pos st1 - 4) (content st)) = replicate 100 0"
    let ?fin = "st1\<lparr>pos := length (content st),
                    truncation_begin := Some (pos st1 - 4),
                    warned := warned st1 @ [truncation_warning],
                    truncated := True\<rparr>"
    have ct: "check_truncated st1 = (Inr True, st1\<lparr>pos := pos st1 - 4\<rparr>)"
      using p1 z c1 by (intro check_truncated_zero) simp_all
    have step: "scan_step st = (Inr (), ?fin)"
      using off by (simp add: scan_step_def fail ct handle_seek_def Let_def c1)
    have stop: "scan_loop ?fin = (Inr (), ?fin)"
      by (subst scan_loop.simps) (simp add: c1)
    show "scan_loop st = (Inr (), ?fin)"
      by (subst scan_loop.simps) (simp add: loop step stop)
  next
    assume nz: "take 100 (drop (pos st1 - 4) (content st)) \<noteq> replicate 100 0"
    obtain st2 where ct: "check_truncated st1 = (Inr False, st2)"
      using check_truncated_nonzero [of st1] p1 nz big c1 by auto
    have step: "scan_step st = (Inl (ValueError msg), st2)"
      by (simp add: scan_step_def fail ct)
    have "scan_loop st = (Inl (ValueError msg), st2)"
      by (subst scan_loop.simps) (simp add: loop step)
    then show "\<exists>st2. scan_loop st = (Inl (ValueError msg), st2)" by blast
  qed
qed

section \<open>Opening a container\<close>

text \<open>
  Claim C5 says that a failed magic or marker assertion of the scan either ends in the
  truncated state (100 zero bytes from 4 bytes before the failure) or propagates as the
  fatal format error. \<open>_check_truncated\<close> seeks back by 100 bytes after its read,
  whatever the read returned. In a file shorter than 100 bytes the read stops at the end
  of the file, the seek back aims before the start of the file and raises OSError, which
  replaces the ValueError of the assertion. The file of 30 bytes: its header is well
  formed, the assertion fails at position 21 with the ValueError of \<open>_check_magic\<close>,
  and the open ends with OSError.
\<close>

theorem short_file_seek_error:
  "length tiny_file = 30
   \<and> scan_block ((fresh tiny_file)\<lparr>pos := 21\<rparr>)
       = (Inl (ValueError
            ''This is probably not a LIF file. Expected LIF magic byte at 25''),
          (fresh tiny_file)\<lparr>pos := 25\<rparr>)
   \<and> take 100 (drop 21 tiny_file) \<noteq> replicate 100 0
   \<and> LifFile_init doc_parsers tiny_file = Inl OSError"
proof -
  have len: "length tiny_file = 30" by (simp add: tiny_file_def header_a_def)
  have s25: "str_nat 25 = ''25''"
    by code_simp
  have blk: "scan_block ((fresh tiny_file)\<lparr>pos := 21\<rparr>)
       = (Inl (ValueError
            ''This is probably not a LIF file. Expected LIF magic byte at 25''),
          (fresh tiny_file)\<lparr>pos := 25\<rparr>)"
    by (simp add: scan_block_def io_defs fresh_def tiny_file_def header_a_def s25 replicate4)
  have nz: "take 100 (drop 21 tiny_file) \<noteq> replicate 100 0"
    by (simp add: tiny_file_def header_a_def)
  show ?thesis using len blk nz tiny_open by simp
qed

text \<open>
  Claim C4, as stated, fails: a truncated file in which the scan has found more blocks
  than the document has images is opened, with one block and no image.
\<close>

theorem open_surplus_blocks_counterexample:
  "LifFile_init doc_parsers surplus_file
     = Inr \<lparr>xml_root = Element ''a'' [] [], block_offsets = [(41, 2)], image_list = [],
            num_images = 0\<rparr>
   \<and> length [(41, 2) :: int \<times> int] \<noteq> length ([] :: image_info list)"
  by (simp add: LifFile_init_def surplus_scan no_images_a reconcile_def)

text \<open>
  Claim C4, amended. With \<open>st\<close> the state in which the scan ends and \<open>images\<close> the
  descriptors of the document: if the file is not truncated, the open fails with a
  ValueError when the counts differ and keeps the blocks found when they agree; if it is
  truncated and the scan found at most as many blocks as there are images, the blocks
  \<open>(truncation_begin, 0)\<close> are appended until the counts agree; if it is truncated and
  the scan found more blocks than there are images, the open succeeds with the blocks
  found. So after every successful open there are at least as many blocks as images.
\<close>

theorem open_block_count:
  assumes o: "open_scan ps (fresh file) = (Inr xml, st)"
    and i: "recursive_image_find ps xml '''' = Inr images"
  shows "(\<not> truncated st \<and> length (found st) \<noteq> length images \<longrightarrow>
            LifFile_init ps file = Inl (ValueError mismatch_message))
     \<and> (\<not> truncated st \<and> length (found st) = length images \<longrightarrow>
            LifFile_init ps file
              = Inr \<lparr>xml_root = xml, block_offsets = found st, image_list = images,
                     num_images = length images\<rparr>)
     \<and> (truncated st \<and> length (found st) \<le> length images \<longrightarrow>
            (\<exists>tb. truncation_begin st = Some tb
               \<and> LifFile_init ps file
                  = Inr \<lparr>xml_root = xml,
                         block_offsets = found st
                           @ replicate (length images - length (found st)) (int tb, 0),
                         image_list = images, num_images = length images\<rparr>))
     \<and> (truncated st \<and> length images < length (found st) \<longrightarrow>
            LifFile_init ps file
              = Inr \<lparr>xml_root = xml, block_offsets = found st, image_list = images,
                     num_images = length images\<rparr>)
     \<and> (\<forall>lf. LifFile_init ps file = Inr lf \<longrightarrow>
            length (image_list lf) \<le> length (block_offsets lf)
            \<and> num_images lf = length (image_list lf))"
proof -
  have init: "LifFile_init ps file = reconcile xml images st"
    using o i by (simp add: LifFile_init_def)
  have fl: "flagged st" using open_scan_flagged [OF o] .
  show ?thesis
  proof (cases "truncated st")
    case False
    then show ?thesis unfolding init by (auto simp: reconcile_def)
  next
    case True
    with fl obtain tb where tb: "truncation_begin st = Some tb"
      by (auto simp: flagged_def)
    have n: "nat (int (length images) - int (length (found st)))
               = length images - length (found st)"
      by simp
    show ?thesis
    proof (cases "length (found st) < length images")
      case lt: True
      then show ?thesis unfolding init using True tb
        by (auto simp: reconcile_def Let_def n)
    next
      case ge: False
      then show ?thesis unfolding init using True tb
        by (auto simp: reconcile_def Let_def)
    qed
  qed
qed

theorem open_block_count_witness:
  "open_scan canned_parsers (fresh padded_file)
     = (Inr (Element ''LMSDataContainerHeader'' [] [demo_item]),
        \<lparr>content = padded_file, pos = 121, found = [], truncated = True,
         truncation_begin = Some 21, warned = [truncation_warning]\<rparr>)
   \<and> recursive_image_find canned_parsers
         (Element ''LMSDataContainerHeader'' [] [demo_item]) '''' = Inr [demo_info]
   \<and> LifFile_init canned_parsers padded_file
       = Inr \<lparr>xml_root = Element ''LMSDataContainerHeader'' [] [demo_item],
              block_offsets = [(21, 0)], image_list = [demo_info], num_images = 1\<rparr>"
proof -
  let ?s1 = "\<lparr>content = padded_file, pos = 21, found = [], truncated = False,
              truncation_begin = None, warned = []\<rparr>"
  let ?s2 = "\<lparr>content = padded_file, pos = 121, found = [], truncated = True,
              truncation_begin = Some 21, warned = [truncation_warning]\<rparr>"
  have len: "length padded_file = 121" by (simp add: padded_file_def header_a_def)
  have step1: "scan_step ?s1 = (Inr (), ?s2)"
    by (simp add: scan_step_def scan_block_def io_defs padded_file_def header_a_def replicate4)
  have l2: "scan_loop ?s2 = (Inr (), ?s2)"
    by (subst scan_loop.simps) (simp add: len)
  have l1: "scan_loop ?s1 = (Inr (), ?s2)"
    by (subst scan_loop.simps) (simp add: len step1 l2)
  have hdr: "fresh padded_file = \<lparr>content = header_a @ replicate 100 0, pos = 0,
       found = [], truncated = False, truncation_begin = None, warned = []\<rparr>"
    by (simp add: fresh_def padded_file_def)
  have s1: "\<lparr>content = header_a @ replicate 100 0, pos = 21,
       found = [], truncated = False, truncation_begin = None, warned = []\<rparr> = ?s1"
    by (simp add: padded_file_def)
  have o: "open_scan canned_parsers (fresh padded_file)
             = (Inr (Element ''LMSDataContainerHeader'' [] [demo_item]), ?s2)"
    unfolding open_scan_split hdr header_a_read s1
    by (simp add: canned_parsers_def l1)
  have info: "image_data_dict canned_parsers '''' demo_item = Inr demo_info"
    by (simp add: builder_defs demo_defs canned_parsers_def demo_item_def demo_info_def)
  have kids: "tree_children (Element ''LMSDataContainerHeader'' [] [demo_item]) = [demo_item]"
    by (simp add: tree_children_def child_elems_def demo_item_def leaf_def)
  have sub: "\<not> has_sub_children demo_item"
    by (simp add: has_sub_children_def child_elems_def demo_item_def leaf_def)
  have img: "is_image demo_item"
    by (simp add: is_image_def child_elems_def demo_item_def leaf_def)
  have nm: "attr demo_item ''Name'' = Inr ''img''"
    by (simp add: attr_def demo_item_def leaf_def)
  have i: "recursive_image_find canned_parsers
             (Element ''LMSDataContainerHeader'' [] [demo_item]) '''' = Inr [demo_info]"
    by (subst recursive_image_find.simps) (simp add: kids sub img nm info)
  show ?thesis
    using o i open_block_count [OF o i] by simp
qed

end
